theory Spec2Isabelle
  imports Complex_Main "HOL-Library.AList"
begin

section \<open>Data model of \<open>qserver/qiskit_simulator.py\<close>\<close>

text \<open>
  A register is a Python \<open>int\<close>. A register entry is one of the two dataclasses
  \<open>QubitRegister(qubit)\<close> and \<open>BitRegister(bit)\<close>. The typing context
  \<open>self.context\<close> is a Python \<open>dict\<close>; it is modelled as an association list in
  insertion order: \<open>map_of\<close> is the lookup \<open>self.context[reg]\<close>,
  \<open>AList.update\<close> is the assignment \<open>self.context[reg] = v\<close> (an existing key
  keeps its place, a new key goes to the end) and \<open>AList.delete\<close> is
  \<open>del self.context[reg]\<close>.
\<close>

type_synonym register = int

datatype entry = is_QubitRegister: QubitRegister int | is_BitRegister: BitRegister bool

type_synonym ctxt = "(register \<times> entry) list"

text \<open>
  The exceptions of the module. \<open>UsageError\<close> carries which of the four messages of
  the source it was raised with. \<open>NameError\<close>, \<open>KeyError\<close> and \<open>AttributeError\<close>
  are the exceptions of the Python runtime for an unbound name, a missing dict key and
  a missing attribute. \<open>BackendError\<close> stands for any exception raised inside
  the external engine (Qiskit), which the module never catches.
\<close>

datatype usage =
    Does_not_exist register
  | Must_be_Qubit register
  | Must_be_Bit register
  | Already_exists register

datatype error =
    is_UsageError: UsageError usage
  | NameError
  | KeyError
  | AttributeError
  | BackendError

text \<open>
  The gate objects handed to the engine: the classes imported from
  \<open>qiskit.circuit.library\<close>, with \<open>.inverse()\<close> and \<open>.control()\<close>. The float
  parameters are carried along unread. \<open>DiagonalGate a b\<close> is
  \<open>DiagonalGate([np.exp(1j*a), np.exp(1j*b)])\<close>.
\<close>

datatype gate =
    HGate | XGate | YGate | ZGate | TGate | SGate | CXGate | CCXGate
  | RZGate real
  | DiagonalGate real real
  | Inverse gate
  | Control gate

text \<open>
  The external engine, as a parameter. \<open>'s\<close> is the type of state vectors.
  A result \<open>None\<close> is an exception raised by the engine.
  \<^item> \<open>basis_state b\<close> is \<open>Statevector([0, 1])\<close> for \<open>b = True\<close> and
    \<open>Statevector([1, 0])\<close> for \<open>b = False\<close>;
  \<^item> \<open>run_new_qubit n sv b\<close> runs the circuit of \<open>new_qubit\<close>: \<open>n\<close> qubits,
    \<open>sv\<close> initialised on qubits \<open>0 .. n-2\<close>, an X on qubit \<open>n-1\<close> when \<open>b\<close>;
  \<^item> \<open>run_measure n st q\<close> runs the circuit of \<open>measure\<close>: \<open>n\<close> qubits
    initialised with \<open>st\<close>, qubit \<open>q\<close> measured; it gives the sampled outcome and the
    saved state vector;
  \<^item> \<open>partial_trace sv q\<close> is \<open>partial_trace(sv, [q]).to_statevector()\<close>;
  \<^item> \<open>run_gate n st g qs\<close> runs the circuit of \<open>_gate_operation\<close>: \<open>n\<close> qubits
    initialised with \<open>st\<close>, gate \<open>g\<close> appended on the qubits \<open>qs\<close>.
  The engine samples measurement outcomes at random: every statement below holds for
  all engines, and a run of several operations may use a different one at each step.
\<close>

record 's backend =
  basis_state :: "bool \<Rightarrow> 's"
  run_new_qubit :: "int \<Rightarrow> 's \<Rightarrow> bool \<Rightarrow> 's option"
  run_measure :: "int \<Rightarrow> 's option \<Rightarrow> int \<Rightarrow> (bool \<times> 's) option"
  partial_trace :: "'s \<Rightarrow> int \<Rightarrow> 's option"
  run_gate :: "int \<Rightarrow> 's option \<Rightarrow> gate \<Rightarrow> int list \<Rightarrow> 's option"

text \<open>
  The fields of a \<open>QiskitSimulator\<close>: \<open>self.num_qubits\<close>, \<open>self.context\<close>
  (\<open>ctxt\<close> here) and \<open>self.state\<close>, which is \<open>None\<close> or a state vector.
\<close>

record 's simulator =
  num_qubits :: int
  ctxt :: ctxt
  state :: "'s option"

text \<open>
  A method call returns its value or the exception it raised, and the simulator as
  the call left it: an exception does not undo the assignments made before it.
\<close>

type_synonym ('a, 's) outcome = "(error + 'a) \<times> 's simulator"

section \<open>Operations\<close>

text \<open>\<open>_check_qubit_reg_exists\<close> and \<open>_check_bit_reg_exists\<close>: \<open>Some e\<close> is the
  exception raised, \<open>None\<close> a normal return.\<close>

definition check_qubit_reg_exists :: "ctxt \<Rightarrow> register \<Rightarrow> error option" where
  "check_qubit_reg_exists c reg =
     (case map_of c reg of
        None \<Rightarrow> Some (UsageError (Does_not_exist reg))
      | Some e \<Rightarrow> if \<not> is_QubitRegister e then Some (UsageError (Must_be_Qubit reg)) else None)"

definition check_bit_reg_exists :: "ctxt \<Rightarrow> register \<Rightarrow> error option" where
  "check_bit_reg_exists c reg =
     (case map_of c reg of
        None \<Rightarrow> Some (UsageError (Does_not_exist reg))
      | Some e \<Rightarrow> if \<not> is_BitRegister e then Some (UsageError (Must_be_Bit reg)) else None)"

text \<open>The expressions \<open>self.context[reg].qubit\<close> and \<open>self.context[reg].bit\<close>.\<close>

definition get_qubit :: "ctxt \<Rightarrow> register \<Rightarrow> error + int" where
  "get_qubit c reg =
     (case map_of c reg of
        None \<Rightarrow> Inl KeyError
      | Some (QubitRegister q) \<Rightarrow> Inr q
      | Some (BitRegister b) \<Rightarrow> Inl AttributeError)"

definition get_bit :: "ctxt \<Rightarrow> register \<Rightarrow> error + bool" where
  "get_bit c reg =
     (case map_of c reg of
        None \<Rightarrow> Inl KeyError
      | Some (QubitRegister q) \<Rightarrow> Inl AttributeError
      | Some (BitRegister b) \<Rightarrow> Inr b)"

text \<open>\<open>reset\<close>; \<open>initial\<close> is the simulator \<open>__init__\<close> leaves.\<close>

definition reset :: "'s simulator \<Rightarrow> (unit, 's) outcome" where
  "reset sim = (Inr (), sim\<lparr>num_qubits := 0, ctxt := [], state := None\<rparr>)"

definition initial :: "'s simulator" where
  "initial = \<lparr>num_qubits = 0, ctxt = [], state = None\<rparr>"

text \<open>\<open>fresh\<close>: the \<open>while True\<close> loop, started at \<open>i = 0\<close>. It ends because the
  dict has finitely many keys.\<close>

function fresh_from :: "ctxt \<Rightarrow> int \<Rightarrow> int" where
  "fresh_from c i = (if map_of c i = None then i else fresh_from c (i + 1))"
  by pat_completeness auto
termination
proof (relation "measure (\<lambda>(c, i). card {k \<in> dom (map_of c). i \<le> k})")
  show "wf (measure (\<lambda>(c, i). card {k \<in> dom (map_of c). i \<le> k}))"
    by simp
next
  fix c :: ctxt and i :: int
  assume "map_of c i \<noteq> None"
  then have "i \<in> {k \<in> dom (map_of c). i \<le> k}" and "i \<notin> {k \<in> dom (map_of c). i + 1 \<le> k}"
    by auto
  moreover have "{k \<in> dom (map_of c). i + 1 \<le> k} \<subseteq> {k \<in> dom (map_of c). i \<le> k}"
    by auto
  ultimately have "{k \<in> dom (map_of c). i + 1 \<le> k} \<subset> {k \<in> dom (map_of c). i \<le> k}"
    by blast
  moreover have "finite {k \<in> dom (map_of c). i \<le> k}"
    by (simp add: finite_dom_map_of)
  ultimately have "card {k \<in> dom (map_of c). i + 1 \<le> k} < card {k \<in> dom (map_of c). i \<le> k}"
    by (rule psubset_card_mono [rotated])
  then show "((c, i + 1), (c, i)) \<in> measure (\<lambda>(c, i). card {k \<in> dom (map_of c). i \<le> k})"
    by simp
qed

declare fresh_from.simps [simp del]

definition fresh :: "'s simulator \<Rightarrow> (register, 's) outcome" where
  "fresh sim = (Inr (fresh_from (ctxt sim) 0), sim)"

text \<open>\<open>new_qubit\<close>.\<close>

definition new_qubit :: "'s backend \<Rightarrow> register \<Rightarrow> bool \<Rightarrow> 's simulator \<Rightarrow> (unit, 's) outcome" where
  "new_qubit be reg bvalue sim =
     (if map_of (ctxt sim) reg \<noteq> None then (Inl (UsageError (Already_exists reg)), sim)
      else
        let sim1 = sim\<lparr>num_qubits := num_qubits sim + 1\<rparr> in
        (case (case state sim1 of
                 None \<Rightarrow> Some (basis_state be bvalue)
               | Some sv \<Rightarrow> run_new_qubit be (num_qubits sim1) sv bvalue) of
           None \<Rightarrow> (Inl BackendError, sim1)
         | Some sv' \<Rightarrow>
             let sim2 = sim1\<lparr>state := Some sv'\<rparr> in
             (Inr (), sim2\<lparr>ctxt := AList.update reg (QubitRegister (num_qubits sim2 - 1)) (ctxt sim2)\<rparr>)))"

text \<open>\<open>measure\<close>. The final loop of the source visits every entry of the dict and
  lowers by one the index of each \<open>QubitRegister\<close> above the measured one.\<close>

definition close_gap :: "int \<Rightarrow> entry \<Rightarrow> entry" where
  "close_gap q x =
     (case x of
        QubitRegister i \<Rightarrow> if i > q then QubitRegister (i - 1) else x
      | BitRegister b \<Rightarrow> x)"

definition measure_reg :: "'s backend \<Rightarrow> register \<Rightarrow> 's simulator \<Rightarrow> (unit, 's) outcome" where
  "measure_reg be reg sim =
     (case check_qubit_reg_exists (ctxt sim) reg of
        Some e \<Rightarrow> (Inl e, sim)
      | None \<Rightarrow>
        (case get_qubit (ctxt sim) reg of
           Inl e \<Rightarrow> (Inl e, sim)
         | Inr q \<Rightarrow>
           (case run_measure be (num_qubits sim) (state sim) q of
              None \<Rightarrow> (Inl BackendError, sim)
            | Some (meas_result, sv) \<Rightarrow>
                let sim1 = sim\<lparr>ctxt := AList.update reg (BitRegister meas_result) (ctxt sim)\<rparr>;
                    sim2 = sim1\<lparr>num_qubits := num_qubits sim1 - 1\<rparr>
                in
                (case (if num_qubits sim2 > 0 then map_option Some (partial_trace be sv q)
                       else Some None) of
                   None \<Rightarrow> (Inl BackendError, sim2)
                 | Some st \<Rightarrow>
                     let sim3 = sim2\<lparr>state := st\<rparr> in
                     (Inr (), sim3\<lparr>ctxt := map (\<lambda>(key, x). (key, close_gap q x)) (ctxt sim3)\<rparr>)))))"

text \<open>\<open>read\<close> and \<open>discard\<close>.\<close>

definition read :: "'s backend \<Rightarrow> register \<Rightarrow> 's simulator \<Rightarrow> (int, 's) outcome" where
  "read be reg sim =
     (case map_of (ctxt sim) reg of
        None \<Rightarrow> (Inl (UsageError (Does_not_exist reg)), sim)
      | Some e \<Rightarrow>
        (case (if is_QubitRegister e then measure_reg be reg sim else (Inr (), sim)) of
           (Inl err, sim') \<Rightarrow> (Inl err, sim')
         | (Inr u, sim') \<Rightarrow>
             (case get_bit (ctxt sim') reg of
                Inl err \<Rightarrow> (Inl err, sim')
              | Inr b \<Rightarrow> (Inr (if b then 1 else 0), sim'))))"

definition discard :: "'s backend \<Rightarrow> register \<Rightarrow> 's simulator \<Rightarrow> (unit, 's) outcome" where
  "discard be reg sim =
     (case map_of (ctxt sim) reg of
        None \<Rightarrow> (Inl (UsageError (Does_not_exist reg)), sim)
      | Some e \<Rightarrow>
        (case (if is_QubitRegister e then measure_reg be reg sim else (Inr (), sim)) of
           (Inl err, sim') \<Rightarrow> (Inl err, sim')
         | (Inr u, sim') \<Rightarrow> (Inr (), sim'\<lparr>ctxt := AList.delete reg (ctxt sim')\<rparr>)))"

text \<open>\<open>new_qubit_from_bit\<close>. After the check and the \<open>del\<close>, the call
  \<open>self.new_qubit(reg, b_reg.bit)\<close> evaluates its arguments first; \<open>b_reg\<close> is bound
  nowhere in the module, so Python raises \<open>NameError\<close> and \<open>new_qubit\<close> is never
  entered.\<close>

definition new_qubit_from_bit :: "register \<Rightarrow> 's simulator \<Rightarrow> (unit, 's) outcome" where
  "new_qubit_from_bit reg sim =
     (case check_bit_reg_exists (ctxt sim) reg of
        Some e \<Rightarrow> (Inl e, sim)
      | None \<Rightarrow>
          let sim1 = sim\<lparr>ctxt := AList.delete reg (ctxt sim)\<rparr> in
          (Inl NameError, sim1))"

text \<open>\<open>_gate_operation\<close>. \<open>check_regs\<close> is the first loop. \<open>check_controls\<close> is the
  second: \<open>Inl e\<close> is the exception raised, \<open>Inr False\<close> the early \<open>return\<close> at a
  control holding \<open>False\<close>, \<open>Inr True\<close> the normal end of the loop. \<open>get_qubits\<close> is
  the list comprehension.\<close>

fun check_regs :: "ctxt \<Rightarrow> register list \<Rightarrow> error option" where
  "check_regs c [] = None"
| "check_regs c (x # xs) =
     (case check_qubit_reg_exists c x of Some e \<Rightarrow> Some e | None \<Rightarrow> check_regs c xs)"

fun check_controls :: "ctxt \<Rightarrow> register list \<Rightarrow> error + bool" where
  "check_controls c [] = Inr True"
| "check_controls c (r # rs) =
     (case check_bit_reg_exists c r of
        Some e \<Rightarrow> Inl e
      | None \<Rightarrow>
        (case get_bit c r of
           Inl e \<Rightarrow> Inl e
         | Inr b \<Rightarrow> if \<not> b then Inr False else check_controls c rs))"

fun get_qubits :: "ctxt \<Rightarrow> register list \<Rightarrow> error + int list" where
  "get_qubits c [] = Inr []"
| "get_qubits c (x # xs) =
     (case get_qubit c x of
        Inl e \<Rightarrow> Inl e
      | Inr q \<Rightarrow> (case get_qubits c xs of Inl e \<Rightarrow> Inl e | Inr qs \<Rightarrow> Inr (q # qs)))"

definition gate_operation ::
  "'s backend \<Rightarrow> gate \<Rightarrow> register list \<Rightarrow> register list \<Rightarrow> 's simulator \<Rightarrow> (unit, 's) outcome" where
  "gate_operation be g regs controls sim =
     (case check_regs (ctxt sim) regs of
        Some e \<Rightarrow> (Inl e, sim)
      | None \<Rightarrow>
        (case check_controls (ctxt sim) controls of
           Inl e \<Rightarrow> (Inl e, sim)
         | Inr False \<Rightarrow> (Inr (), sim)
         | Inr True \<Rightarrow>
           (case get_qubits (ctxt sim) regs of
              Inl e \<Rightarrow> (Inl e, sim)
            | Inr qubits \<Rightarrow>
              (case run_gate be (num_qubits sim) (state sim) g qubits of
                 None \<Rightarrow> (Inl BackendError, sim)
               | Some sv \<Rightarrow> (Inr (), sim\<lparr>state := Some sv\<rparr>)))))"

text \<open>The fifteen gate entry points.\<close>

definition gate_H :: "'s backend \<Rightarrow> register \<Rightarrow> register list \<Rightarrow> 's simulator \<Rightarrow> (unit, 's) outcome" where
  "gate_H be reg controls = gate_operation be HGate [reg] controls"

definition gate_X :: "'s backend \<Rightarrow> register \<Rightarrow> register list \<Rightarrow> 's simulator \<Rightarrow> (unit, 's) outcome" where
  "gate_X be reg controls = gate_operation be XGate [reg] controls"

definition gate_Y :: "'s backend \<Rightarrow> register \<Rightarrow> register list \<Rightarrow> 's simulator \<Rightarrow> (unit, 's) outcome" where
  "gate_Y be reg controls = gate_operation be YGate [reg] controls"

definition gate_Z :: "'s backend \<Rightarrow> register \<Rightarrow> register list \<Rightarrow> 's simulator \<Rightarrow> (unit, 's) outcome" where
  "gate_Z be reg controls = gate_operation be ZGate [reg] controls"

definition gate_T :: "'s backend \<Rightarrow> register \<Rightarrow> register list \<Rightarrow> 's simulator \<Rightarrow> (unit, 's) outcome" where
  "gate_T be reg controls = gate_operation be TGate [reg] controls"

definition gate_TInv :: "'s backend \<Rightarrow> register \<Rightarrow> register list \<Rightarrow> 's simulator \<Rightarrow> (unit, 's) outcome" where
  "gate_TInv be reg controls = gate_operation be (Inverse TGate) [reg] controls"

definition gate_S :: "'s backend \<Rightarrow> register \<Rightarrow> register list \<Rightarrow> 's simulator \<Rightarrow> (unit, 's) outcome" where
  "gate_S be reg controls = gate_operation be SGate [reg] controls"

definition gate_SInv :: "'s backend \<Rightarrow> register \<Rightarrow> register list \<Rightarrow> 's simulator \<Rightarrow> (unit, 's) outcome" where
  "gate_SInv be reg controls = gate_operation be (Inverse SGate) [reg] controls"

definition gate_CNOT ::
  "'s backend \<Rightarrow> register \<Rightarrow> register \<Rightarrow> register list \<Rightarrow> 's simulator \<Rightarrow> (unit, 's) outcome" where
  "gate_CNOT be x y controls = gate_operation be CXGate [x, y] controls"

definition gate_Toffoli ::
  "'s backend \<Rightarrow> register \<Rightarrow> register \<Rightarrow> register \<Rightarrow> register list \<Rightarrow> 's simulator \<Rightarrow> (unit, 's) outcome" where
  "gate_Toffoli be x y z controls = gate_operation be CCXGate [x, y, z] controls"

definition gate_Rz ::
  "'s backend \<Rightarrow> real \<Rightarrow> register \<Rightarrow> register list \<Rightarrow> 's simulator \<Rightarrow> (unit, 's) outcome" where
  "gate_Rz be r reg controls = gate_operation be (RZGate r) [reg] controls"

definition gate_Diag ::
  "'s backend \<Rightarrow> real \<Rightarrow> real \<Rightarrow> register \<Rightarrow> register list \<Rightarrow> 's simulator \<Rightarrow> (unit, 's) outcome" where
  "gate_Diag be a b reg controls = gate_operation be (DiagonalGate a b) [reg] controls"

definition gate_CZ ::
  "'s backend \<Rightarrow> register \<Rightarrow> register \<Rightarrow> register list \<Rightarrow> 's simulator \<Rightarrow> (unit, 's) outcome" where
  "gate_CZ be x y controls = gate_operation be (Control ZGate) [x, y] controls"

definition gate_CY ::
  "'s backend \<Rightarrow> register \<Rightarrow> register \<Rightarrow> register list \<Rightarrow> 's simulator \<Rightarrow> (unit, 's) outcome" where
  "gate_CY be x y controls = gate_operation be (Control YGate) [x, y] controls"

definition gate_CRz ::
  "'s backend \<Rightarrow> real \<Rightarrow> register \<Rightarrow> register \<Rightarrow> register list \<Rightarrow> 's simulator \<Rightarrow> (unit, 's) outcome" where
  "gate_CRz be r x y controls = gate_operation be (Control (RZGate r)) [x, y] controls"

text \<open>
  The public methods as commands. A gate entry point is named with its register
  arguments (and its angles); \<open>descriptor\<close> is the gate object it builds and
  \<open>targets\<close> the list of registers it passes to \<open>_gate_operation\<close>.
\<close>

datatype gate_call =
    Call_H register
  | Call_X register
  | Call_Y register
  | Call_Z register
  | Call_T register
  | Call_TInv register
  | Call_S register
  | Call_SInv register
  | Call_CNOT register register
  | Call_Toffoli register register register
  | Call_Rz real register
  | Call_Diag real real register
  | Call_CZ register register
  | Call_CY register register
  | Call_CRz real register register

fun gate_entry ::
  "'s backend \<Rightarrow> gate_call \<Rightarrow> register list \<Rightarrow> 's simulator \<Rightarrow> (unit, 's) outcome" where
  "gate_entry be (Call_H reg) controls = gate_H be reg controls"
| "gate_entry be (Call_X reg) controls = gate_X be reg controls"
| "gate_entry be (Call_Y reg) controls = gate_Y be reg controls"
| "gate_entry be (Call_Z reg) controls = gate_Z be reg controls"
| "gate_entry be (Call_T reg) controls = gate_T be reg controls"
| "gate_entry be (Call_TInv reg) controls = gate_TInv be reg controls"
| "gate_entry be (Call_S reg) controls = gate_S be reg controls"
| "gate_entry be (Call_SInv reg) controls = gate_SInv be reg controls"
| "gate_entry be (Call_CNOT x y) controls = gate_CNOT be x y controls"
| "gate_entry be (Call_Toffoli x y z) controls = gate_Toffoli be x y z controls"
| "gate_entry be (Call_Rz r reg) controls = gate_Rz be r reg controls"
| "gate_entry be (Call_Diag a b reg) controls = gate_Diag be a b reg controls"
| "gate_entry be (Call_CZ x y) controls = gate_CZ be x y controls"
| "gate_entry be (Call_CY x y) controls = gate_CY be x y controls"
| "gate_entry be (Call_CRz r x y) controls = gate_CRz be r x y controls"

fun descriptor :: "gate_call \<Rightarrow> gate" where
  "descriptor (Call_H reg) = HGate"
| "descriptor (Call_X reg) = XGate"
| "descriptor (Call_Y reg) = YGate"
| "descriptor (Call_Z reg) = ZGate"
| "descriptor (Call_T reg) = TGate"
| "descriptor (Call_TInv reg) = Inverse TGate"
| "descriptor (Call_S reg) = SGate"
| "descriptor (Call_SInv reg) = Inverse SGate"
| "descriptor (Call_CNOT x y) = CXGate"
| "descriptor (Call_Toffoli x y z) = CCXGate"
| "descriptor (Call_Rz r reg) = RZGate r"
| "descriptor (Call_Diag a b reg) = DiagonalGate a b"
| "descriptor (Call_CZ x y) = Control ZGate"
| "descriptor (Call_CY x y) = Control YGate"
| "descriptor (Call_CRz r x y) = Control (RZGate r)"

fun targets :: "gate_call \<Rightarrow> register list" where
  "targets (Call_H reg) = [reg]"
| "targets (Call_X reg) = [reg]"
| "targets (Call_Y reg) = [reg]"
| "targets (Call_Z reg) = [reg]"
| "targets (Call_T reg) = [reg]"
| "targets (Call_TInv reg) = [reg]"
| "targets (Call_S reg) = [reg]"
| "targets (Call_SInv reg) = [reg]"
| "targets (Call_CNOT x y) = [x, y]"
| "targets (Call_Toffoli x y z) = [x, y, z]"
| "targets (Call_Rz r reg) = [reg]"
| "targets (Call_Diag a b reg) = [reg]"
| "targets (Call_CZ x y) = [x, y]"
| "targets (Call_CY x y) = [x, y]"
| "targets (Call_CRz r x y) = [x, y]"

datatype command =
    Reset
  | Fresh
  | New_qubit register bool
  | New_qubit_from_bit register
  | Measure register
  | Read register
  | Discard register
  | Gate gate_call "register list"

text \<open>
  \<open>exec\<close> runs one command. The value of a call is \<open>Some n\<close> for the integer a
  method returns (\<open>fresh\<close>, \<open>read\<close>) and \<open>None\<close> for a method that returns nothing.
\<close>

definition returning :: "('a \<Rightarrow> int option) \<Rightarrow> ('a, 's) outcome \<Rightarrow> (int option, 's) outcome" where
  "returning f r = (case r of (Inl e, sim) \<Rightarrow> (Inl e, sim) | (Inr v, sim) \<Rightarrow> (Inr (f v), sim))"

fun exec :: "'s backend \<Rightarrow> command \<Rightarrow> 's simulator \<Rightarrow> (int option, 's) outcome" where
  "exec be Reset sim = returning (\<lambda>u. None) (reset sim)"
| "exec be Fresh sim = returning Some (fresh sim)"
| "exec be (New_qubit reg bvalue) sim = returning (\<lambda>u. None) (new_qubit be reg bvalue sim)"
| "exec be (New_qubit_from_bit reg) sim = returning (\<lambda>u. None) (new_qubit_from_bit reg sim)"
| "exec be (Measure reg) sim = returning (\<lambda>u. None) (measure_reg be reg sim)"
| "exec be (Read reg) sim = returning Some (read be reg sim)"
| "exec be (Discard reg) sim = returning (\<lambda>u. None) (discard be reg sim)"
| "exec be (Gate gc controls) sim = returning (\<lambda>u. None) (gate_entry be gc controls sim)"

text \<open>
  The simulators that a sequence of successful commands can produce from the initial
  one. The engine is chosen anew at every step, so the outcomes of the measurements
  and the state vectors it hands back are arbitrary.
\<close>

inductive reachable :: "'s simulator \<Rightarrow> bool" where
  reachable_initial: "reachable initial"
| reachable_step: "reachable sim \<Longrightarrow> exec be cmd sim = (Inr v, sim') \<Longrightarrow> reachable sim'"

text \<open>The indices of the \<open>QubitRegister\<close> entries of a context, in dict order.\<close>

fun qubit_indices :: "ctxt \<Rightarrow> int list" where
  "qubit_indices [] = []"
| "qubit_indices ((k, QubitRegister q) # c) = q # qubit_indices c"
| "qubit_indices ((k, BitRegister b) # c) = qubit_indices c"

text \<open>
  The bookkeeping invariant: the association list is a dict (no key twice), the qubit
  indices are \<open>0, ..., num_qubits - 1\<close>, each once, \<open>num_qubits\<close> counts the
  \<open>QubitRegister\<close> entries, and the state is \<open>None\<close> exactly when there is no qubit.
\<close>

definition well_indexed :: "'s simulator \<Rightarrow> bool" where
  "well_indexed sim \<longleftrightarrow>
     distinct (map fst (ctxt sim)) \<and>
     distinct (qubit_indices (ctxt sim)) \<and>
     set (qubit_indices (ctxt sim)) = {0..<num_qubits sim} \<and>
     num_qubits sim = int (length (qubit_indices (ctxt sim))) \<and>
     (state sim = None) = (num_qubits sim = 0)"

section \<open>Engines\<close>

text \<open>
  Two engines to run the model on concrete inputs. \<open>classical\<close> keeps one boolean
  per qubit (a computational basis state, qubit \<open>i\<close> at position \<open>i\<close>): a new qubit
  is appended at the end, a measurement reads the bit, the partial trace removes its
  position, X and CX act as on bits, and every other gate raises. It also raises
  when the state does not have the \<open>n\<close> qubits of the circuit or an index is out of
  range. \<open>failing\<close> raises in every circuit it is asked to run. Neither is part of
  the source: the theorems hold for every engine, and these two only instantiate
  them.
\<close>

definition classical :: "bool list backend" where
  "classical =
     \<lparr>basis_state = (\<lambda>b. [b]),
      run_new_qubit = (\<lambda>n sv b. if int (length sv) + 1 = n then Some (sv @ [b]) else None),
      run_measure = (\<lambda>n st q.
        case st of
          None \<Rightarrow> None
        | Some sv \<Rightarrow>
            if int (length sv) = n \<and> 0 \<le> q \<and> q < n then Some (sv ! nat q, sv) else None),
      partial_trace = (\<lambda>sv q.
        if 0 \<le> q \<and> q < int (length sv) then Some (take (nat q) sv @ drop (nat q + 1) sv)
        else None),
      run_gate = (\<lambda>n st g qs.
        case st of
          None \<Rightarrow> None
        | Some sv \<Rightarrow>
            if int (length sv) \<noteq> n \<or> \<not> list_all (\<lambda>q. 0 \<le> q \<and> q < n) qs then None
            else
              (case (g, qs) of
                 (XGate, [q]) \<Rightarrow> Some (sv[nat q := \<not> sv ! nat q])
               | (CXGate, [c, t]) \<Rightarrow>
                   if c = t then None
                   else Some (sv[nat t := (sv ! nat t \<noteq> sv ! nat c)])
               | _ \<Rightarrow> None))\<rparr>"

definition failing :: "unit backend" where
  "failing =
     \<lparr>basis_state = (\<lambda>b. ()),
      run_new_qubit = (\<lambda>n sv b. None),
      run_measure = (\<lambda>n st q. None),
      partial_trace = (\<lambda>sv q. None),
      run_gate = (\<lambda>n st g qs. None)\<rparr>"

text \<open>
  \<open>failing_trace\<close> is \<open>classical\<close> with a partial trace that raises.
\<close>

definition failing_trace :: "bool list backend" where
  "failing_trace = classical\<lparr>partial_trace := (\<lambda>sv q. None)\<rparr>"

section \<open>The engine as the source drives it\<close>

text \<open>
  The calls of the source into Qiskit, written out. A state vector is the list of its
  amplitudes: \<open>Statevector([0, 1])\<close> is \<open>[0, 1]\<close>. A circuit is
  \<open>QuantumCircuit(n)\<close> or \<open>QuantumCircuit(n, 1)\<close> with the list of the methods
  called on it, in order: \<open>qc.initialize(state, qubits)\<close>, \<open>qc.x(q)\<close>,
  \<open>qc.append(gate, qubits)\<close>, \<open>qc.measure(q, c)\<close> and
  \<open>qc.save_statevector()\<close>. A result holds what the source reads from it:
  \<open>get_counts()\<close>, a dict in its order, and \<open>get_statevector()\<close>.
\<close>

datatype instruction =
    Op_initialize "complex list option" "int list"
  | Op_x int
  | Op_append gate "int list"
  | Op_measure int int
  | Op_save_statevector

record circuit =
  circ_qubits :: int
  circ_clbits :: int
  circ_ops :: "instruction list"

record result =
  get_counts :: "(string \<times> nat) list"
  get_statevector :: "complex list"

text \<open>
  The two functions of Qiskit that the source calls: \<open>run e c\<close> is
  \<open>self._sim.run(c, shots=1).result()\<close> and \<open>trace_out e sv q\<close> is
  \<open>partial_trace(sv, [q]).to_statevector()\<close>. \<open>None\<close> is an exception.
\<close>

record qiskit =
  run :: "circuit \<Rightarrow> result option"
  trace_out :: "complex list \<Rightarrow> int \<Rightarrow> complex list option"






section \<open>What the engine computes\<close>









section \<open>Failing calls\<close>

text \<open>
  How \<open>measure\<close> can raise, as a relation between the simulator before the call
  and the exception and the simulator after it: the check fails, nothing is written;
  the engine raises in the measurement circuit, nothing is written; the partial trace
  raises, and by then the entry of \<open>reg\<close> is the outcome bit and \<open>num_qubits\<close> is
  lowered, while the state and the indices of the other entries are still the old
  ones.
\<close>

abbreviation measure_failure ::
  "'s backend \<Rightarrow> register \<Rightarrow> 's simulator \<Rightarrow> error \<Rightarrow> 's simulator \<Rightarrow> bool" where
  "measure_failure be reg sim e sim' \<equiv>
     (case map_of (ctxt sim) reg of
        None \<Rightarrow> e = UsageError (Does_not_exist reg) \<and> sim' = sim
      | Some (BitRegister b) \<Rightarrow> e = UsageError (Must_be_Qubit reg) \<and> sim' = sim
      | Some (QubitRegister q) \<Rightarrow>
          e = BackendError \<and>
          (case run_measure be (num_qubits sim) (state sim) q of
             None \<Rightarrow> sim' = sim
           | Some (b, sv) \<Rightarrow>
               0 < num_qubits sim - 1 \<and> partial_trace be sv q = None \<and>
               sim' = sim\<lparr>ctxt := AList.update reg (BitRegister b) (ctxt sim),
                          num_qubits := num_qubits sim - 1\<rparr>))"

section \<open>\<open>fresh\<close>\<close>

lemma fresh_from_unused: "map_of c (fresh_from c i) = None"
proof (induction c i rule: fresh_from.induct)
  case (1 c i)
  then show ?case
    by (cases "map_of c i = None") (simp_all add: fresh_from.simps [of c i])
qed

lemma fresh_from_ge: "i \<le> fresh_from c i"
proof (induction c i rule: fresh_from.induct)
  case (1 c i)
  then show ?case
    by (cases "map_of c i = None") (simp_all add: fresh_from.simps [of c i])
qed

lemma fresh_from_least: "i \<le> j \<Longrightarrow> j < fresh_from c i \<Longrightarrow> map_of c j \<noteq> None"
proof (induction c i rule: fresh_from.induct)
  case (1 c i)
  show ?case
  proof (cases "map_of c i = None")
    case True
    with "1.prems" show ?thesis
      by (simp add: fresh_from.simps [of c i])
  next
    case False
    show ?thesis
    proof (cases "j = i")
      case True
      with False show ?thesis by simp
    next
      case neq: False
      with "1.prems" False have "i + 1 \<le> j" and "j < fresh_from c (i + 1)"
        by (simp_all add: fresh_from.simps [of c i])
      with "1.IH" False show ?thesis by simp
    qed
  qed
qed

text \<open>
  Claim C8. \<open>fresh()\<close> returns without raising; the register it returns is not a key
  of the context, is not negative, and every non-negative integer below it is a key:
  it is the smallest non-negative integer that is not a key. The simulator (context,
  \<open>num_qubits\<close>, state) is returned as it was.
\<close>

theorem fresh_smallest_unused:
  "\<exists>r. fresh sim = (Inr r, sim) \<and> 0 \<le> r \<and> map_of (ctxt sim) r = None
       \<and> (\<forall>j. 0 \<le> j \<and> j < r \<longrightarrow> map_of (ctxt sim) j \<noteq> None)"
  using fresh_from_unused [of "ctxt sim" 0] fresh_from_ge [of 0 "ctxt sim"]
    fresh_from_least [of 0 _ "ctxt sim"]
  by (auto simp: fresh_def)

theorem fresh_smallest_unused_witness:
  "fresh \<lparr>num_qubits = 1, ctxt = [(1, BitRegister True), (0, QubitRegister 0), (3, BitRegister False)],
      state = Some (0::nat)\<rparr>
   = (Inr 2, \<lparr>num_qubits = 1, ctxt = [(1, BitRegister True), (0, QubitRegister 0), (3, BitRegister False)],
      state = Some (0::nat)\<rparr>)"
proof -
  let ?sim = "\<lparr>num_qubits = 1, ctxt = [(1, BitRegister True), (0, QubitRegister 0), (3, BitRegister False)],
      state = Some (0::nat)\<rparr>"
  from fresh_smallest_unused [of ?sim] obtain r where
    r: "fresh ?sim = (Inr r, ?sim)" "0 \<le> r" "map_of (ctxt ?sim) r = None"
       "\<forall>j. 0 \<le> j \<and> j < r \<longrightarrow> map_of (ctxt ?sim) j \<noteq> None"
    by blast
  have "r \<noteq> 0" "r \<noteq> 1" using r(3) by auto
  moreover have "\<not> 2 < r" using r(4) by (auto dest: spec [of _ 2])
  ultimately have "r = 2" using r(2) by arith
  with r(1) show ?thesis by simp
qed

section \<open>The engine \<open>classical\<close>\<close>

lemma classical_simps:
  "basis_state classical b = [b]"
  "run_new_qubit classical n sv b = (if int (length sv) + 1 = n then Some (sv @ [b]) else None)"
  "run_measure classical n (Some sv) q =
     (if int (length sv) = n \<and> 0 \<le> q \<and> q < n then Some (sv ! nat q, sv) else None)"
  "partial_trace classical sv q =
     (if 0 \<le> q \<and> q < int (length sv) then Some (take (nat q) sv @ drop (nat q + 1) sv) else None)"
  by (simp_all add: classical_def)

section \<open>Contexts as association lists\<close>

lemma qubit_indices_mem:
  "map_of c reg = Some (QubitRegister q) \<Longrightarrow> q \<in> set (qubit_indices c)"
  by (induction c rule: qubit_indices.induct) (auto split: if_splits)

lemma qubit_indices_new:
  "map_of c reg = None \<Longrightarrow>
   qubit_indices (AList.update reg (QubitRegister n) c) = qubit_indices c @ [n]"
  by (induction c rule: qubit_indices.induct) (auto split: if_splits)

lemma qubit_indices_to_bit:
  "map_of c reg = Some (QubitRegister q) \<Longrightarrow> distinct (qubit_indices c) \<Longrightarrow>
   qubit_indices (AList.update reg (BitRegister b) c) = remove1 q (qubit_indices c)"
proof (induction c rule: qubit_indices.induct)
  case 1
  then show ?case by simp
next
  case (2 k i c)
  show ?case
  proof (cases "k = reg")
    case True
    with "2.prems" show ?thesis by simp
  next
    case False
    with "2.prems" have "q \<in> set (qubit_indices c)" and "i \<notin> set (qubit_indices c)"
      by (auto intro: qubit_indices_mem)
    then have "i \<noteq> q" by blast
    with False "2.prems" "2.IH" show ?thesis by simp
  qed
next
  case (3 k b' c)
  then show ?case by (cases "k = reg") simp_all
qed

lemma qubit_indices_close_gap:
  "qubit_indices (map (\<lambda>(key, x). (key, close_gap q x)) c)
   = map (\<lambda>i. if i > q then i - 1 else i) (qubit_indices c)"
  by (induction c rule: qubit_indices.induct) (simp_all add: close_gap_def)

lemma qubit_indices_delete_bit:
  "distinct (map fst c) \<Longrightarrow> map_of c reg = Some (BitRegister b) \<Longrightarrow>
   qubit_indices (AList.delete reg c) = qubit_indices c"
proof (induction c rule: qubit_indices.induct)
  case 1
  then show ?case by simp
next
  case (2 k i c)
  then show ?case by (cases "k = reg") simp_all
next
  case (3 k b' c)
  show ?case
  proof (cases "k = reg")
    case True
    with "3.prems" have "reg \<notin> fst ` set c" by auto
    then have "AList.delete reg c = c" by (rule AList.delete_id)
    with True show ?thesis by simp
  next
    case False
    with "3.prems" "3.IH" show ?thesis by simp
  qed
qed

lemma keys_close_gap: "map fst (map (\<lambda>(key, x). (key, close_gap q x)) c) = map fst c"
  by (induction c) auto

lemma map_of_close_gap:
  "map_of (map (\<lambda>(key, x). (key, close_gap q x)) c) k = map_option (close_gap q) (map_of c k)"
  by (induction c) auto

lemma closing_the_gap:
  fixes xs :: "int list"
  assumes d: "distinct xs" and s: "set xs = {0..<n}" and q: "q \<in> set xs"
  defines "ys \<equiv> map (\<lambda>i. if i > q then i - 1 else i) (remove1 q xs)"
  shows "distinct ys" and "set ys = {0..<n - 1}" and "int (length ys) = int (length xs) - 1"
proof -
  have set_rm: "set (remove1 q xs) = {0..<n} - {q}"
    using d s by simp
  have "inj_on (\<lambda>i. if i > q then i - 1 else i) ({0..<n} - {q})"
    by (auto simp: inj_on_def split: if_splits)
  with d set_rm show "distinct ys"
    by (simp add: ys_def distinct_map)
  have "(\<lambda>i. if i > q then i - 1 else i) ` ({0..<n} - {q}) = {0..<n - 1}"
  proof (intro equalityI subsetI)
    fix y assume "y \<in> (\<lambda>i. if i > q then i - 1 else i) ` ({0..<n} - {q})"
    then show "y \<in> {0..<n - 1}" using q s by (auto split: if_splits)
  next
    fix y assume y: "y \<in> {0..<n - 1}"
    show "y \<in> (\<lambda>i. if i > q then i - 1 else i) ` ({0..<n} - {q})"
    proof (cases "y < q")
      case True
      with y have "y \<in> {0..<n} - {q}" by auto
      moreover from True have "y = (if y > q then y - 1 else y)" by simp
      ultimately show ?thesis by (rule rev_image_eqI)
    next
      case False
      with y have "y + 1 \<in> {0..<n} - {q}" by auto
      moreover from False have "y = (if y + 1 > q then y + 1 - 1 else y + 1)" by simp
      ultimately show ?thesis by (rule rev_image_eqI)
    qed
  qed
  with set_rm show "set ys = {0..<n - 1}"
    by (simp add: ys_def)
  from q obtain m where m: "length xs = Suc m"
    by (cases xs) auto
  with q have "length (remove1 q xs) = m"
    by (simp add: length_remove1)
  with m show "int (length ys) = int (length xs) - 1"
    by (simp add: ys_def)
qed

section \<open>What a successful call has done\<close>

lemma new_qubit_success:
  assumes "new_qubit be reg bvalue sim = (Inr v, sim')"
  shows "map_of (ctxt sim) reg = None"
    and "num_qubits sim' = num_qubits sim + 1"
    and "ctxt sim' = AList.update reg (QubitRegister (num_qubits sim)) (ctxt sim)"
    and "state sim' =
           (case state sim of None \<Rightarrow> Some (basis_state be bvalue)
            | Some sv \<Rightarrow> run_new_qubit be (num_qubits sim + 1) sv bvalue)"
    and "state sim' \<noteq> None"
  using assms by (auto simp: new_qubit_def Let_def split: if_splits option.splits)

lemma measure_reg_success:
  assumes "measure_reg be reg sim = (Inr v, sim')"
  obtains q b sv where
    "map_of (ctxt sim) reg = Some (QubitRegister q)"
    "run_measure be (num_qubits sim) (state sim) q = Some (b, sv)"
    "num_qubits sim' = num_qubits sim - 1"
    "ctxt sim' = map (\<lambda>(key, x). (key, close_gap q x)) (AList.update reg (BitRegister b) (ctxt sim))"
    "state sim' = (if num_qubits sim - 1 > 0 then partial_trace be sv q else None)"
    "num_qubits sim - 1 > 0 \<longrightarrow> partial_trace be sv q \<noteq> None"
  using assms
  by (auto simp: measure_reg_def check_qubit_reg_exists_def get_qubit_def Let_def
      split: if_splits option.splits sum.splits entry.splits prod.splits)

lemma close_gap_bit: "close_gap q (BitRegister b) = BitRegister b"
  by (simp add: close_gap_def)

lemma close_gap_qubit:
  "close_gap q (QubitRegister i) = QubitRegister (if i > q then i - 1 else i)"
  by (simp add: close_gap_def)

lemma measure_reg_leaves_bit:
  assumes "measure_reg be reg sim = (Inr v, sim')"
  shows "\<exists>b. map_of (ctxt sim') reg = Some (BitRegister b)"
proof -
  from assms obtain q b sv where
    "ctxt sim' = map (\<lambda>(key, x). (key, close_gap q x)) (AList.update reg (BitRegister b) (ctxt sim))"
    by (rule measure_reg_success)
  then show ?thesis
    by (simp add: map_of_close_gap AList.update_conv' close_gap_bit)
qed

lemma read_success:
  assumes "read be reg sim = (Inr n, sim')"
  shows "(\<exists>b. map_of (ctxt sim) reg = Some (BitRegister b) \<and> sim' = sim \<and> n = (if b then 1 else 0))
       \<or> (\<exists>q b. map_of (ctxt sim) reg = Some (QubitRegister q)
              \<and> measure_reg be reg sim = (Inr (), sim')
              \<and> map_of (ctxt sim') reg = Some (BitRegister b) \<and> n = (if b then 1 else 0))"
proof (cases "map_of (ctxt sim) reg")
  case None
  with assms show ?thesis by (simp add: read_def)
next
  case (Some e)
  show ?thesis
  proof (cases e)
    case (QubitRegister q)
    obtain r s1 where m: "measure_reg be reg sim = (r, s1)"
      by (cases "measure_reg be reg sim")
    show ?thesis
    proof (cases r)
      case (Inl err)
      with Some QubitRegister m assms show ?thesis by (simp add: read_def)
    next
      case (Inr u)
      with m obtain b where b: "map_of (ctxt s1) reg = Some (BitRegister b)"
        using measure_reg_leaves_bit by blast
      with Some QubitRegister m Inr assms show ?thesis
        by (simp add: read_def get_bit_def)
    qed
  next
    case (BitRegister b)
    with Some assms show ?thesis
      by (simp add: read_def get_bit_def)
  qed
qed

lemma discard_success:
  assumes "discard be reg sim = (Inr v, sim')"
  shows "(\<exists>b. map_of (ctxt sim) reg = Some (BitRegister b)
              \<and> sim' = sim\<lparr>ctxt := AList.delete reg (ctxt sim)\<rparr>)
       \<or> (\<exists>q sim1. map_of (ctxt sim) reg = Some (QubitRegister q)
              \<and> measure_reg be reg sim = (Inr (), sim1)
              \<and> sim' = sim1\<lparr>ctxt := AList.delete reg (ctxt sim1)\<rparr>)"
proof (cases "map_of (ctxt sim) reg")
  case None
  with assms show ?thesis by (simp add: discard_def)
next
  case (Some e)
  show ?thesis
  proof (cases e)
    case (QubitRegister q)
    obtain r s1 where m: "measure_reg be reg sim = (r, s1)"
      by (cases "measure_reg be reg sim")
    show ?thesis
    proof (cases r)
      case (Inl err)
      with Some QubitRegister m assms show ?thesis by (simp add: discard_def)
    next
      case (Inr u)
      with Some QubitRegister m assms show ?thesis
        by (simp add: discard_def)
    qed
  next
    case (BitRegister b)
    with Some assms show ?thesis
      by (simp add: discard_def)
  qed
qed

section \<open>The invariant of the bookkeeping\<close>

lemma well_indexed_nonneg: "well_indexed sim \<Longrightarrow> 0 \<le> num_qubits sim"
  by (simp add: well_indexed_def)

lemma well_indexed_new_qubit:
  assumes wi: "well_indexed sim" and ok: "new_qubit be reg bvalue sim = (Inr v, sim')"
  shows "well_indexed sim'"
proof -
  note s = new_qubit_success [OF ok]
  from s(1) have idx: "qubit_indices (ctxt sim') = qubit_indices (ctxt sim) @ [num_qubits sim]"
    by (simp add: s(3) qubit_indices_new)
  from wi have n0: "0 \<le> num_qubits sim" by (rule well_indexed_nonneg)
  have "distinct (map fst (ctxt sim'))"
    using wi by (simp add: s(3) well_indexed_def AList.distinct_update)
  moreover have "distinct (qubit_indices (ctxt sim'))"
    using wi by (simp add: idx well_indexed_def)
  moreover have "set (qubit_indices (ctxt sim')) = {0..<num_qubits sim'}"
    using wi n0 by (auto simp: idx s(2) well_indexed_def)
  moreover have "num_qubits sim' = int (length (qubit_indices (ctxt sim')))"
    using wi by (simp add: idx s(2) well_indexed_def)
  moreover have "(state sim' = None) = (num_qubits sim' = 0)"
    using s(5) n0 by (simp add: s(2))
  ultimately show ?thesis by (simp add: well_indexed_def)
qed

lemma well_indexed_measure_reg:
  assumes wi: "well_indexed sim" and ok: "measure_reg be reg sim = (Inr v, sim')"
  shows "well_indexed sim'"
proof -
  from ok obtain q b sv where
    reg: "map_of (ctxt sim) reg = Some (QubitRegister q)" and
    rm: "run_measure be (num_qubits sim) (state sim) q = Some (b, sv)" and
    n': "num_qubits sim' = num_qubits sim - 1" and
    c': "ctxt sim' = map (\<lambda>(key, x). (key, close_gap q x)) (AList.update reg (BitRegister b) (ctxt sim))" and
    st': "state sim' = (if num_qubits sim - 1 > 0 then partial_trace be sv q else None)" and
    pt: "num_qubits sim - 1 > 0 \<longrightarrow> partial_trace be sv q \<noteq> None"
    by (rule measure_reg_success) blast
  let ?xs = "qubit_indices (ctxt sim)"
  from wi have d: "distinct ?xs" and s: "set ?xs = {0..<num_qubits sim}"
    and l: "num_qubits sim = int (length ?xs)" and k: "distinct (map fst (ctxt sim))"
    by (simp_all add: well_indexed_def)
  from reg have q: "q \<in> set ?xs" by (rule qubit_indices_mem)
  have idx: "qubit_indices (ctxt sim') = map (\<lambda>i. if i > q then i - 1 else i) (remove1 q ?xs)"
    using reg d by (simp add: c' qubit_indices_close_gap qubit_indices_to_bit)
  note g = closing_the_gap [OF d s q]
  from q s have n1: "1 \<le> num_qubits sim" by auto
  have "map fst (ctxt sim') = map fst (AList.update reg (BitRegister b) (ctxt sim))"
    unfolding c' by (rule keys_close_gap)
  with k have "distinct (map fst (ctxt sim'))"
    by (simp add: AList.distinct_update)
  moreover have "distinct (qubit_indices (ctxt sim'))"
    using g(1) by (simp add: idx)
  moreover have "set (qubit_indices (ctxt sim')) = {0..<num_qubits sim'}"
    using g(2) by (simp add: idx n')
  moreover have "num_qubits sim' = int (length (qubit_indices (ctxt sim')))"
    using g(3) l by (simp add: idx n')
  moreover have "(state sim' = None) = (num_qubits sim' = 0)"
    using pt n1 by (auto simp: st' n')
  ultimately show ?thesis by (simp add: well_indexed_def)
qed

lemma well_indexed_delete_bit:
  assumes wi: "well_indexed sim" and b: "map_of (ctxt sim) reg = Some (BitRegister b)"
  shows "well_indexed (sim\<lparr>ctxt := AList.delete reg (ctxt sim)\<rparr>)"
proof -
  from wi have k: "distinct (map fst (ctxt sim))" by (simp add: well_indexed_def)
  from k b have "qubit_indices (AList.delete reg (ctxt sim)) = qubit_indices (ctxt sim)"
    by (rule qubit_indices_delete_bit)
  with wi k show ?thesis
    by (simp add: well_indexed_def AList.distinct_delete)
qed

lemma well_indexed_read:
  assumes wi: "well_indexed sim" and ok: "read be reg sim = (Inr n, sim')"
  shows "well_indexed sim'"
  using read_success [OF ok] wi by (auto intro: well_indexed_measure_reg)

lemma well_indexed_discard:
  assumes wi: "well_indexed sim" and ok: "discard be reg sim = (Inr v, sim')"
  shows "well_indexed sim'"
proof -
  from discard_success [OF ok] show ?thesis
  proof (elim disjE exE conjE)
    fix b assume "map_of (ctxt sim) reg = Some (BitRegister b)"
      and "sim' = sim\<lparr>ctxt := AList.delete reg (ctxt sim)\<rparr>"
    with wi show ?thesis by (simp add: well_indexed_delete_bit)
  next
    fix q sim1 assume m: "measure_reg be reg sim = (Inr (), sim1)"
      and s': "sim' = sim1\<lparr>ctxt := AList.delete reg (ctxt sim1)\<rparr>"
    from wi m have "well_indexed sim1" by (rule well_indexed_measure_reg)
    moreover from m obtain b where "map_of (ctxt sim1) reg = Some (BitRegister b)"
      using measure_reg_leaves_bit by blast
    ultimately show ?thesis unfolding s' by (rule well_indexed_delete_bit)
  qed
qed

lemma check_regs_None:
  "check_regs c regs = None \<longleftrightarrow> (\<forall>x\<in>set regs. \<exists>q. map_of c x = Some (QubitRegister q))"
  by (induction regs)
    (auto simp: check_qubit_reg_exists_def is_QubitRegister_def split: option.splits)

lemma gate_entry_eq:
  "gate_entry be gc controls sim = gate_operation be (descriptor gc) (targets gc) controls sim"
  by (cases gc)
    (simp_all add: gate_H_def gate_X_def gate_Y_def gate_Z_def gate_T_def gate_TInv_def
      gate_S_def gate_SInv_def gate_CNOT_def gate_Toffoli_def gate_Rz_def gate_Diag_def
      gate_CZ_def gate_CY_def gate_CRz_def)

lemma targets_nonempty: "targets gc \<noteq> []"
  by (cases gc) simp_all

lemma gate_operation_success:
  assumes "gate_operation be g regs controls sim = (Inr v, sim')"
  shows "ctxt sim' = ctxt sim" and "num_qubits sim' = num_qubits sim"
    and "sim' = sim \<or> state sim' \<noteq> None"
    and "check_regs (ctxt sim) regs = None"
  using assms
  by (auto simp: gate_operation_def split: option.splits sum.splits bool.splits)

lemma well_indexed_gate_entry:
  assumes wi: "well_indexed sim" and ok: "gate_entry be gc controls sim = (Inr v, sim')"
  shows "well_indexed sim'"
proof -
  from ok have go: "gate_operation be (descriptor gc) (targets gc) controls sim = (Inr v, sim')"
    by (simp add: gate_entry_eq)
  note s = gate_operation_success [OF go]
  obtain x where "x \<in> set (targets gc)"
    using targets_nonempty [of gc] by (cases "targets gc") auto
  with s(4) obtain q where "map_of (ctxt sim) x = Some (QubitRegister q)"
    by (auto simp: check_regs_None)
  then have "q \<in> set (qubit_indices (ctxt sim))" by (rule qubit_indices_mem)
  with wi have "num_qubits sim \<noteq> 0" by (auto simp: well_indexed_def)
  with wi s(3) have "(state sim' = None) = (num_qubits sim' = 0)"
    by (auto simp: s(2) well_indexed_def)
  with wi show ?thesis by (simp add: well_indexed_def s(1,2))
qed

lemma well_indexed_initial: "well_indexed initial"
  by (simp add: well_indexed_def initial_def)

lemma new_qubit_from_bit_fails: "fst (new_qubit_from_bit reg sim) \<noteq> Inr v"
  by (simp add: new_qubit_from_bit_def Let_def split: option.splits)

lemma well_indexed_exec:
  assumes wi: "well_indexed sim" and ok: "exec be cmd sim = (Inr v, sim')"
  shows "well_indexed sim'"
proof (cases cmd)
  case Reset
  with ok show ?thesis by (auto simp: returning_def reset_def well_indexed_def)
next
  case Fresh
  with ok wi show ?thesis by (auto simp: returning_def fresh_def)
next
  case (New_qubit reg bvalue)
  with ok wi show ?thesis
    by (auto simp: returning_def split: prod.splits sum.splits intro: well_indexed_new_qubit)
next
  case (New_qubit_from_bit reg)
  with ok new_qubit_from_bit_fails [of reg sim] show ?thesis
    by (auto simp: returning_def split: prod.splits sum.splits)
next
  case (Measure reg)
  with ok wi show ?thesis
    by (auto simp: returning_def split: prod.splits sum.splits intro: well_indexed_measure_reg)
next
  case (Read reg)
  with ok wi show ?thesis
    by (auto simp: returning_def split: prod.splits sum.splits intro: well_indexed_read)
next
  case (Discard reg)
  with ok wi show ?thesis
    by (auto simp: returning_def split: prod.splits sum.splits intro: well_indexed_discard)
next
  case (Gate gc controls)
  with ok wi show ?thesis
    by (auto simp: returning_def split: prod.splits sum.splits intro: well_indexed_gate_entry)
qed

lemma reachable_well_indexed: "reachable sim \<Longrightarrow> well_indexed sim"
  by (induction rule: reachable.induct) (auto intro: well_indexed_initial well_indexed_exec)

text \<open>
  Claim C1. In every simulator that a sequence of successful public operations
  (\<open>reset\<close>, \<open>fresh\<close>, \<open>new_qubit\<close>, \<open>new_qubit_from_bit\<close>, \<open>measure\<close>,
  \<open>read\<close>, \<open>discard\<close>, the gates) produces from the initial one, whatever the
  engine answers: no key occurs twice in the context, the indices of the
  \<open>QubitRegister\<close> entries are pairwise different, they are exactly
  \<open>0, ..., num_qubits - 1\<close>, and \<open>num_qubits\<close> is the number of \<open>QubitRegister\<close>
  entries.
\<close>

theorem reachable_qubit_indices:
  "reachable sim \<Longrightarrow>
     distinct (map fst (ctxt sim)) \<and>
     distinct (qubit_indices (ctxt sim)) \<and>
     set (qubit_indices (ctxt sim)) = {0..<num_qubits sim} \<and>
     num_qubits sim = int (length (qubit_indices (ctxt sim)))"
  using reachable_well_indexed [of sim] by (simp add: well_indexed_def)

theorem reachable_qubit_indices_witness:
  "reachable \<lparr>num_qubits = 1, ctxt = [(5, BitRegister True), (2, QubitRegister 0)],
      state = Some [False]\<rparr>
   \<and> qubit_indices [(5, BitRegister True), (2, QubitRegister 0)] = [0]
   \<and> set (qubit_indices [(5, BitRegister True), (2, QubitRegister 0)]) = {0..<1}"
proof -
  let ?s1 = "\<lparr>num_qubits = 1, ctxt = [(5, QubitRegister 0)], state = Some [True]\<rparr>"
  let ?s2 = "\<lparr>num_qubits = 2, ctxt = [(5, QubitRegister 0), (2, QubitRegister 1)],
      state = Some [True, False]\<rparr>"
  let ?s3 = "\<lparr>num_qubits = 1, ctxt = [(5, BitRegister True), (2, QubitRegister 0)],
      state = Some [False]\<rparr>"
  have "exec classical (New_qubit 5 True) initial = (Inr None, ?s1)"
    by (simp add: returning_def new_qubit_def initial_def classical_simps)
  with reachable_initial have r1: "reachable ?s1"
    by (rule reachable_step)
  have "exec classical (New_qubit 2 False) ?s1 = (Inr None, ?s2)"
    by (simp add: returning_def new_qubit_def classical_simps)
  with r1 have r2: "reachable ?s2"
    by (rule reachable_step)
  have "exec classical (Measure 5) ?s2 = (Inr None, ?s3)"
    by (simp add: returning_def measure_reg_def check_qubit_reg_exists_def get_qubit_def
        classical_simps close_gap_def)
  with r2 have r3: "reachable ?s3"
    by (rule reachable_step)
  from reachable_qubit_indices [OF r3] r3 show ?thesis
    by simp
qed

section \<open>Measurement\<close>

text \<open>
  Claim C2. When \<open>reg\<close> holds \<open>QubitRegister q\<close> and \<open>measure(reg)\<close> succeeds:
  the entry of \<open>reg\<close> becomes \<open>BitRegister b\<close> for the outcome \<open>b\<close> the engine
  gave for qubit \<open>q\<close>; every other \<open>QubitRegister\<close> entry with an index above \<open>q\<close>
  has its index lowered by exactly one; every \<open>QubitRegister\<close> entry with an index
  below \<open>q\<close> and every \<open>BitRegister\<close> entry is unchanged; no key is added;
  \<open>num_qubits\<close> is lowered by one; and the state is \<open>None\<close> when \<open>num_qubits\<close> has
  reached zero, else the partial trace over \<open>q\<close> of the state the engine saved.
\<close>

theorem measure_reindexes:
  "map_of (ctxt sim) reg = Some (QubitRegister q) \<Longrightarrow>
   measure_reg be reg sim = (Inr v, sim') \<Longrightarrow>
     (\<exists>b sv. run_measure be (num_qubits sim) (state sim) q = Some (b, sv)
         \<and> map_of (ctxt sim') reg = Some (BitRegister b)
         \<and> state sim' = (if num_qubits sim' > 0 then partial_trace be sv q else None))
     \<and> (\<forall>k i. k \<noteq> reg \<and> map_of (ctxt sim) k = Some (QubitRegister i) \<and> i > q
            \<longrightarrow> map_of (ctxt sim') k = Some (QubitRegister (i - 1)))
     \<and> (\<forall>k i. k \<noteq> reg \<and> map_of (ctxt sim) k = Some (QubitRegister i) \<and> i < q
            \<longrightarrow> map_of (ctxt sim') k = Some (QubitRegister i))
     \<and> (\<forall>k b. k \<noteq> reg \<and> map_of (ctxt sim) k = Some (BitRegister b)
            \<longrightarrow> map_of (ctxt sim') k = Some (BitRegister b))
     \<and> (\<forall>k. map_of (ctxt sim) k = None \<longrightarrow> map_of (ctxt sim') k = None)
     \<and> num_qubits sim' = num_qubits sim - 1
     \<and> (num_qubits sim' = 0 \<longrightarrow> state sim' = None)"
proof -
  assume reg: "map_of (ctxt sim) reg = Some (QubitRegister q)"
    and ok: "measure_reg be reg sim = (Inr v, sim')"
  from ok obtain q' b sv where
    reg': "map_of (ctxt sim) reg = Some (QubitRegister q')" and
    rm: "run_measure be (num_qubits sim) (state sim) q' = Some (b, sv)" and
    n': "num_qubits sim' = num_qubits sim - 1" and
    c': "ctxt sim' = map (\<lambda>(key, x). (key, close_gap q' x)) (AList.update reg (BitRegister b) (ctxt sim))" and
    st': "state sim' = (if num_qubits sim - 1 > 0 then partial_trace be sv q' else None)" and
    pt: "num_qubits sim - 1 > 0 \<longrightarrow> partial_trace be sv q' \<noteq> None"
    by (rule measure_reg_success) blast
  from reg reg' have q': "q' = q" by simp
  have look: "map_of (ctxt sim') k = map_option (close_gap q) (((map_of (ctxt sim))(reg \<mapsto> BitRegister b)) k)" for k
    by (simp add: c' q' map_of_close_gap AList.update_conv')
  have "\<exists>b sv. run_measure be (num_qubits sim) (state sim) q = Some (b, sv)
         \<and> map_of (ctxt sim') reg = Some (BitRegister b)
         \<and> state sim' = (if num_qubits sim' > 0 then partial_trace be sv q else None)"
    using rm st' by (auto simp: q' n' look close_gap_bit)
  moreover have "\<forall>k i. k \<noteq> reg \<and> map_of (ctxt sim) k = Some (QubitRegister i) \<and> i > q
            \<longrightarrow> map_of (ctxt sim') k = Some (QubitRegister (i - 1))"
    by (simp add: look close_gap_qubit)
  moreover have "\<forall>k i. k \<noteq> reg \<and> map_of (ctxt sim) k = Some (QubitRegister i) \<and> i < q
            \<longrightarrow> map_of (ctxt sim') k = Some (QubitRegister i)"
    by (simp add: look close_gap_qubit)
  moreover have "\<forall>k b. k \<noteq> reg \<and> map_of (ctxt sim) k = Some (BitRegister b)
            \<longrightarrow> map_of (ctxt sim') k = Some (BitRegister b)"
    by (simp add: look close_gap_bit)
  moreover have "\<forall>k. map_of (ctxt sim) k = None \<longrightarrow> map_of (ctxt sim') k = None"
    using reg by (auto simp: look)
  moreover have "num_qubits sim' = 0 \<longrightarrow> state sim' = None"
    by (simp add: st' n')
  ultimately show ?thesis using n' by blast
qed

lemma measure_three_qubits:
  "measure_reg classical 10
     \<lparr>num_qubits = 3, ctxt = [(10, QubitRegister 0), (20, QubitRegister 1), (30, QubitRegister 2)],
        state = Some [True, False, True]\<rparr>
   = (Inr (),
      \<lparr>num_qubits = 2, ctxt = [(10, BitRegister True), (20, QubitRegister 0), (30, QubitRegister 1)],
        state = Some [False, True]\<rparr>)"
  by (simp add: measure_reg_def check_qubit_reg_exists_def get_qubit_def classical_simps
      close_gap_def)

theorem measure_reindexes_witness:
  "map_of (ctxt (snd (measure_reg classical 10
      \<lparr>num_qubits = 3, ctxt = [(10, QubitRegister 0), (20, QubitRegister 1), (30, QubitRegister 2)],
        state = Some [True, False, True]\<rparr>))) 20 = Some (QubitRegister 0)
   \<and> map_of (ctxt (snd (measure_reg classical 10
      \<lparr>num_qubits = 3, ctxt = [(10, QubitRegister 0), (20, QubitRegister 1), (30, QubitRegister 2)],
        state = Some [True, False, True]\<rparr>))) 30 = Some (QubitRegister 1)
   \<and> num_qubits (snd (measure_reg classical 10
      \<lparr>num_qubits = 3, ctxt = [(10, QubitRegister 0), (20, QubitRegister 1), (30, QubitRegister 2)],
        state = Some [True, False, True]\<rparr>)) = 2"
proof -
  let ?sim = "\<lparr>num_qubits = 3, ctxt = [(10, QubitRegister 0), (20, QubitRegister 1), (30, QubitRegister 2)],
        state = Some [True, False, True]\<rparr>"
  let ?sim' = "snd (measure_reg classical 10 ?sim)"
  have reg: "map_of (ctxt ?sim) 10 = Some (QubitRegister 0)"
    by simp
  have ok: "measure_reg classical 10 ?sim = (Inr (), ?sim')"
    by (simp add: measure_three_qubits)
  note m = measure_reindexes [OF reg ok]
  from m have up: "\<forall>k i. k \<noteq> 10 \<and> map_of (ctxt ?sim) k = Some (QubitRegister i) \<and> i > 0
      \<longrightarrow> map_of (ctxt ?sim') k = Some (QubitRegister (i - 1))"
    by blast
  from up [rule_format, of 20 1] have "map_of (ctxt ?sim') 20 = Some (QubitRegister 0)"
    by simp
  moreover from up [rule_format, of 30 2] have "map_of (ctxt ?sim') 30 = Some (QubitRegister 1)"
    by simp
  moreover from m have "num_qubits ?sim' = 2"
    by simp
  ultimately show ?thesis by blast
qed

section \<open>\<open>new_qubit_from_bit\<close>\<close>

lemma new_qubit_from_bit_usage:
  "\<nexists>b. map_of (ctxt sim) reg = Some (BitRegister b) \<Longrightarrow>
   \<exists>u. new_qubit_from_bit reg sim = (Inl (UsageError u), sim)"
  by (auto simp: new_qubit_from_bit_def check_bit_reg_exists_def is_BitRegister_def
      split: option.splits)

text \<open>
  Claim C3. The claim says that \<open>new_qubit_from_bit(reg)\<close> on an existing
  \<open>BitRegister\<close> succeeds and leaves \<open>reg\<close> a qubit initialised with the stored
  boolean. The code does not: on every register holding a \<open>BitRegister\<close> it deletes
  the entry and then raises \<open>NameError\<close>, because the argument \<open>b_reg.bit\<close> of the
  call of \<open>new_qubit\<close> names a variable that is bound nowhere. The register is left
  absent, \<open>num_qubits\<close> and the state are untouched.
\<close>

theorem new_qubit_from_bit_raises_NameError:
  "map_of (ctxt sim) reg = Some (BitRegister b) \<Longrightarrow>
   new_qubit_from_bit reg sim = (Inl NameError, sim\<lparr>ctxt := AList.delete reg (ctxt sim)\<rparr>)"
  by (simp add: new_qubit_from_bit_def check_bit_reg_exists_def)

theorem new_qubit_from_bit_raises_NameError_witness:
  "new_qubit_from_bit 0
     \<lparr>num_qubits = 0, ctxt = [(0, BitRegister True)], state = None :: bool list option\<rparr>
   = (Inl NameError, \<lparr>num_qubits = 0, ctxt = [], state = None\<rparr>)"
  using new_qubit_from_bit_raises_NameError
    [of "\<lparr>num_qubits = 0, ctxt = [(0, BitRegister True)], state = None :: bool list option\<rparr>" 0 True]
  by simp

section \<open>\<open>read\<close> and \<open>discard\<close> on a bit\<close>

text \<open>
  Claim C10. On a register holding \<open>BitRegister b\<close>, \<open>read\<close> returns \<open>1\<close> for
  \<open>b = True\<close> and \<open>0\<close> for \<open>b = False\<close> and returns the simulator as it was, so a
  second \<open>read\<close> gives the same; \<open>discard\<close> succeeds, removes the key \<open>reg\<close> and
  nothing else from the context, and leaves \<open>num_qubits\<close> and the state as they were.
\<close>

theorem bit_read_discard_frame:
  "map_of (ctxt sim) reg = Some (BitRegister b) \<Longrightarrow>
     read be reg sim = (Inr (if b then 1 else 0), sim)
     \<and> read be reg (snd (read be reg sim)) = read be reg sim
     \<and> fst (discard be reg sim) = Inr ()
     \<and> map_of (ctxt (snd (discard be reg sim))) = (map_of (ctxt sim))(reg := None)
     \<and> num_qubits (snd (discard be reg sim)) = num_qubits sim
     \<and> state (snd (discard be reg sim)) = state sim"
  by (simp add: read_def discard_def get_bit_def AList.delete_conv')

theorem bit_read_discard_frame_witness:
  "read classical 5 \<lparr>num_qubits = 1, ctxt = [(5, BitRegister True), (2, QubitRegister 0)],
      state = Some [False]\<rparr>
   = (Inr 1, \<lparr>num_qubits = 1, ctxt = [(5, BitRegister True), (2, QubitRegister 0)],
      state = Some [False]\<rparr>)
   \<and> map_of (ctxt (snd (discard classical 5 \<lparr>num_qubits = 1,
        ctxt = [(5, BitRegister True), (2, QubitRegister 0)], state = Some [False]\<rparr>))) 5 = None
   \<and> map_of (ctxt (snd (discard classical 5 \<lparr>num_qubits = 1,
        ctxt = [(5, BitRegister True), (2, QubitRegister 0)], state = Some [False]\<rparr>))) 2
       = Some (QubitRegister 0)"
  using bit_read_discard_frame
    [of "\<lparr>num_qubits = 1, ctxt = [(5, BitRegister True), (2, QubitRegister 0)],
      state = Some [False]\<rparr>" 5 True classical]
  by simp

section \<open>Gate operations\<close>

lemma check_bit_reg_exists_bad:
  "\<nexists>b. map_of c r = Some (BitRegister b) \<Longrightarrow> \<exists>u. check_bit_reg_exists c r = Some (UsageError u)"
  by (auto simp: check_bit_reg_exists_def is_BitRegister_def split: option.splits)

lemma check_controls_true:
  "\<forall>r\<in>set controls. map_of c r = Some (BitRegister True) \<Longrightarrow> check_controls c controls = Inr True"
  by (induction controls) (simp_all add: check_bit_reg_exists_def get_bit_def)

lemma check_controls_false:
  "\<forall>r\<in>set pre. map_of c r = Some (BitRegister True) \<Longrightarrow>
   map_of c c0 = Some (BitRegister False) \<Longrightarrow>
   check_controls c (pre @ c0 # post) = Inr False"
  by (induction pre) (simp_all add: check_bit_reg_exists_def get_bit_def)

lemma check_controls_bad:
  assumes "\<forall>r\<in>set pre. map_of c r = Some (BitRegister True)"
    and "\<nexists>b. map_of c c0 = Some (BitRegister b)"
  shows "\<exists>u. check_controls c (pre @ c0 # post) = Inl (UsageError u)"
  using assms(1)
proof (induction pre)
  case Nil
  from check_bit_reg_exists_bad [OF assms(2)] show ?case by auto
next
  case (Cons r pre)
  then show ?case by (simp add: check_bit_reg_exists_def get_bit_def)
qed

lemma check_regs_Some:
  "\<exists>x\<in>set regs. \<nexists>i. map_of c x = Some (QubitRegister i) \<Longrightarrow>
   \<exists>u. check_regs c regs = Some (UsageError u)"
proof (induction regs)
  case Nil
  then show ?case by simp
next
  case (Cons x regs)
  show ?case
  proof (cases "check_qubit_reg_exists c x")
    case None
    then have "\<exists>i. map_of c x = Some (QubitRegister i)"
      by (auto simp: check_qubit_reg_exists_def is_QubitRegister_def split: option.splits if_splits)
    with Cons None show ?thesis by auto
  next
    case (Some e)
    then have "\<exists>u. e = UsageError u"
      by (auto simp: check_qubit_reg_exists_def split: option.splits if_splits)
    with Some show ?thesis by auto
  qed
qed

lemma get_qubits_all2:
  "list_all2 (\<lambda>x i. map_of c x = Some (QubitRegister i)) regs qs \<Longrightarrow> get_qubits c regs = Inr qs"
  by (induction regs qs rule: list_all2_induct) (simp_all add: get_qubit_def)

lemma qubits_exist:
  "\<forall>x\<in>set regs. \<exists>i. map_of c x = Some (QubitRegister i) \<Longrightarrow>
   \<exists>qs. list_all2 (\<lambda>x i. map_of c x = Some (QubitRegister i)) regs qs"
proof (induction regs)
  case Nil
  then show ?case by simp
next
  case (Cons x regs)
  then obtain i qs where "map_of c x = Some (QubitRegister i)"
    and "list_all2 (\<lambda>x i. map_of c x = Some (QubitRegister i)) regs qs"
    by auto
  then have "list_all2 (\<lambda>x i. map_of c x = Some (QubitRegister i)) (x # regs) (i # qs)"
    by simp
  then show ?case by blast
qed

text \<open>
  Claim C9. Whatever the controls are (also when one of them holds \<open>False\<close>, so that
  the gate would be skipped): if some target register is absent or is not a
  \<open>QubitRegister\<close>, the gate operation raises \<open>UsageError\<close>, and the simulator is as
  it was. The targets are checked in a loop of their own, before the loop over the
  controls starts.
\<close>

theorem targets_checked_before_controls:
  "\<exists>x\<in>set regs. \<nexists>i. map_of (ctxt sim) x = Some (QubitRegister i) \<Longrightarrow>
   \<exists>u. gate_operation be g regs controls sim = (Inl (UsageError u), sim)"
proof -
  assume "\<exists>x\<in>set regs. \<nexists>i. map_of (ctxt sim) x = Some (QubitRegister i)"
  then obtain u where "check_regs (ctxt sim) regs = Some (UsageError u)"
    using check_regs_Some by blast
  then show ?thesis by (simp add: gate_operation_def)
qed

theorem targets_checked_before_controls_witness:
  "gate_operation classical XGate [1] [1]
     \<lparr>num_qubits = 1, ctxt = [(0, QubitRegister 0), (1, BitRegister False)], state = Some [False]\<rparr>
   = (Inl (UsageError (Must_be_Qubit 1)),
     \<lparr>num_qubits = 1, ctxt = [(0, QubitRegister 0), (1, BitRegister False)], state = Some [False]\<rparr>)"
proof -
  let ?sim = "\<lparr>num_qubits = 1, ctxt = [(0, QubitRegister 0), (1, BitRegister False)],
    state = Some [False]\<rparr>"
  have "\<exists>x\<in>set [1]. \<nexists>i. map_of (ctxt ?sim) x = Some (QubitRegister i)"
    by simp
  from targets_checked_before_controls [OF this, of classical XGate "[1]"]
  obtain u where u: "gate_operation classical XGate [1] [1] ?sim = (Inl (UsageError u), ?sim)"
    by blast
  moreover have "fst (gate_operation classical XGate [1] [1] ?sim) = Inl (UsageError (Must_be_Qubit 1))"
    by (simp add: gate_operation_def check_qubit_reg_exists_def)
  ultimately show ?thesis by simp
qed

text \<open>
  Claim C5, as the code has it. The controls are read from left to right, each one
  checked before its bit is looked at. With all targets existing \<open>QubitRegister\<close>
  entries: if some control holds \<open>BitRegister False\<close> and every control before it
  holds \<open>BitRegister True\<close>, the operation returns normally and the simulator
  (state, context, \<open>num_qubits\<close>) is as it was; if every control holds
  \<open>BitRegister True\<close> (or there is none), the operation does exactly what it does
  with no controls: the engine applies the gate to the indices of the targets, in
  the order given, and its result becomes the state.
\<close>

theorem classical_control:
  "\<forall>x\<in>set regs. \<exists>i. map_of (ctxt sim) x = Some (QubitRegister i) \<Longrightarrow>
     ((\<forall>r\<in>set pre. map_of (ctxt sim) r = Some (BitRegister True))
        \<and> map_of (ctxt sim) c0 = Some (BitRegister False)
        \<longrightarrow> gate_operation be g regs (pre @ c0 # post) sim = (Inr (), sim))
     \<and> ((\<forall>r\<in>set controls. map_of (ctxt sim) r = Some (BitRegister True))
        \<longrightarrow> gate_operation be g regs controls sim = gate_operation be g regs [] sim
          \<and> (\<exists>qs. list_all2 (\<lambda>x i. map_of (ctxt sim) x = Some (QubitRegister i)) regs qs
                \<and> gate_operation be g regs controls sim =
                    (case run_gate be (num_qubits sim) (state sim) g qs of
                       None \<Rightarrow> (Inl BackendError, sim)
                     | Some sv \<Rightarrow> (Inr (), sim\<lparr>state := Some sv\<rparr>))))"
proof -
  assume t: "\<forall>x\<in>set regs. \<exists>i. map_of (ctxt sim) x = Some (QubitRegister i)"
  then have regs: "check_regs (ctxt sim) regs = None"
    by (simp add: check_regs_None)
  from t obtain qs where qs: "list_all2 (\<lambda>x i. map_of (ctxt sim) x = Some (QubitRegister i)) regs qs"
    using qubits_exist by blast
  then have gq: "get_qubits (ctxt sim) regs = Inr qs"
    by (rule get_qubits_all2)
  have skip: "gate_operation be g regs (pre @ c0 # post) sim = (Inr (), sim)"
    if "\<forall>r\<in>set pre. map_of (ctxt sim) r = Some (BitRegister True)"
      and "map_of (ctxt sim) c0 = Some (BitRegister False)"
    using that regs by (simp add: gate_operation_def check_controls_false)
  have run: "gate_operation be g regs cs sim =
        (case run_gate be (num_qubits sim) (state sim) g qs of
           None \<Rightarrow> (Inl BackendError, sim)
         | Some sv \<Rightarrow> (Inr (), sim\<lparr>state := Some sv\<rparr>))"
    if "\<forall>r\<in>set cs. map_of (ctxt sim) r = Some (BitRegister True)" for cs
    using that regs gq by (simp add: gate_operation_def check_controls_true)
  have "gate_operation be g regs controls sim = gate_operation be g regs [] sim"
    if "\<forall>r\<in>set controls. map_of (ctxt sim) r = Some (BitRegister True)"
    using run [OF that] run [of "[]"] by simp
  with skip run qs show ?thesis by blast
qed

theorem classical_control_witness:
  "gate_operation classical XGate [0] [2, 1]
     \<lparr>num_qubits = 1, ctxt = [(0, QubitRegister 0), (1, BitRegister False), (2, BitRegister True)],
        state = Some [False]\<rparr>
   = (Inr (), \<lparr>num_qubits = 1,
        ctxt = [(0, QubitRegister 0), (1, BitRegister False), (2, BitRegister True)],
        state = Some [False]\<rparr>)
   \<and> gate_operation classical XGate [0] [2]
     \<lparr>num_qubits = 1, ctxt = [(0, QubitRegister 0), (1, BitRegister False), (2, BitRegister True)],
        state = Some [False]\<rparr>
   = (Inr (), \<lparr>num_qubits = 1,
        ctxt = [(0, QubitRegister 0), (1, BitRegister False), (2, BitRegister True)],
        state = Some [True]\<rparr>)"
proof -
  let ?sim = "\<lparr>num_qubits = 1,
    ctxt = [(0, QubitRegister 0), (1, BitRegister False), (2, BitRegister True)],
    state = Some [False]\<rparr>"
  have t: "\<forall>x\<in>set [0]. \<exists>i. map_of (ctxt ?sim) x = Some (QubitRegister i)"
    by simp
  note c = classical_control [OF t, where pre = "[2]" and ?c0.0 = 1 and post = "[]"
      and controls = "[2]" and be = classical and g = XGate]
  from c have "gate_operation classical XGate [0] [2, 1] ?sim = (Inr (), ?sim)"
    by simp
  moreover from c have "gate_operation classical XGate [0] [2] ?sim
      = gate_operation classical XGate [0] [] ?sim"
    by simp
  moreover have "gate_operation classical XGate [0] [] ?sim = (Inr (), ?sim\<lparr>state := Some [True]\<rparr>)"
    by (simp add: gate_operation_def check_qubit_reg_exists_def get_qubit_def classical_def)
  ultimately show ?thesis by simp
qed

text \<open>
  Claim C5 as stated fails: the targets are existing qubits and the control \<open>1\<close>
  holds \<open>False\<close>, yet the call raises \<open>UsageError\<close>, because the control \<open>7\<close>
  before it does not exist.
\<close>

theorem false_control_behind_missing_control:
  "map_of [(0 :: register, QubitRegister 0), (1, BitRegister False)] 0 = Some (QubitRegister 0)
   \<and> map_of [(0 :: register, QubitRegister 0), (1, BitRegister False)] 1 = Some (BitRegister False)
   \<and> gate_X classical 0 [7, 1]
       \<lparr>num_qubits = 1, ctxt = [(0, QubitRegister 0), (1, BitRegister False)], state = Some [False]\<rparr>
     = (Inl (UsageError (Does_not_exist 7)),
       \<lparr>num_qubits = 1, ctxt = [(0, QubitRegister 0), (1, BitRegister False)], state = Some [False]\<rparr>)"
  by (simp add: gate_X_def gate_operation_def check_qubit_reg_exists_def check_bit_reg_exists_def)

text \<open>
  Claim C6, as the code has it. Every gate entry point raises \<open>UsageError\<close>, and
  leaves the simulator as it was, whenever one of its target registers is absent or
  is not a \<open>QubitRegister\<close> (whatever the controls are), and whenever some control
  is absent or is not a \<open>BitRegister\<close> while every control before it in the list
  holds \<open>BitRegister True\<close>.
\<close>

theorem gate_entry_usage_errors:
  "((\<exists>x\<in>set (targets gc). \<nexists>i. map_of (ctxt sim) x = Some (QubitRegister i))
      \<longrightarrow> (\<exists>u. gate_entry be gc controls sim = (Inl (UsageError u), sim)))
   \<and> ((\<forall>r\<in>set pre. map_of (ctxt sim) r = Some (BitRegister True))
        \<and> (\<nexists>b. map_of (ctxt sim) c0 = Some (BitRegister b))
      \<longrightarrow> (\<exists>u. gate_entry be gc (pre @ c0 # post) sim = (Inl (UsageError u), sim)))"
proof (intro conjI impI)
  assume "\<exists>x\<in>set (targets gc). \<nexists>i. map_of (ctxt sim) x = Some (QubitRegister i)"
  then obtain u where "check_regs (ctxt sim) (targets gc) = Some (UsageError u)"
    using check_regs_Some by blast
  then show "\<exists>u. gate_entry be gc controls sim = (Inl (UsageError u), sim)"
    by (simp add: gate_entry_eq gate_operation_def)
next
  assume a: "(\<forall>r\<in>set pre. map_of (ctxt sim) r = Some (BitRegister True))
        \<and> (\<nexists>b. map_of (ctxt sim) c0 = Some (BitRegister b))"
  then obtain u where u: "check_controls (ctxt sim) (pre @ c0 # post) = Inl (UsageError u)"
    using check_controls_bad by blast
  show "\<exists>u. gate_entry be gc (pre @ c0 # post) sim = (Inl (UsageError u), sim)"
  proof (cases "check_regs (ctxt sim) (targets gc)")
    case None
    with u show ?thesis by (simp add: gate_entry_eq gate_operation_def)
  next
    case (Some e)
    then have "\<not> (\<forall>x\<in>set (targets gc). \<exists>q. map_of (ctxt sim) x = Some (QubitRegister q))"
      using check_regs_None [of "ctxt sim" "targets gc"] by simp
    then obtain u' where "check_regs (ctxt sim) (targets gc) = Some (UsageError u')"
      using check_regs_Some [of "targets gc" "ctxt sim"] by blast
    then show ?thesis by (simp add: gate_entry_eq gate_operation_def)
  qed
qed

theorem gate_entry_usage_errors_witness:
  "gate_entry classical (Call_CNOT 0 5) [1]
     \<lparr>num_qubits = 1, ctxt = [(0, QubitRegister 0), (1, BitRegister False), (2, BitRegister True)],
        state = Some [False]\<rparr>
   = (Inl (UsageError (Does_not_exist 5)), \<lparr>num_qubits = 1,
        ctxt = [(0, QubitRegister 0), (1, BitRegister False), (2, BitRegister True)],
        state = Some [False]\<rparr>)
   \<and> gate_entry classical (Call_X 0) [2, 0, 1]
     \<lparr>num_qubits = 1, ctxt = [(0, QubitRegister 0), (1, BitRegister False), (2, BitRegister True)],
        state = Some [False]\<rparr>
   = (Inl (UsageError (Must_be_Bit 0)), \<lparr>num_qubits = 1,
        ctxt = [(0, QubitRegister 0), (1, BitRegister False), (2, BitRegister True)],
        state = Some [False]\<rparr>)"
proof -
  let ?sim = "\<lparr>num_qubits = 1,
    ctxt = [(0, QubitRegister 0), (1, BitRegister False), (2, BitRegister True)],
    state = Some [False]\<rparr>"
  from gate_entry_usage_errors [where gc = "Call_CNOT 0 5" and sim = ?sim and be = classical
      and controls = "[1]" and pre = "[]" and ?c0.0 = 5 and post = "[]"]
  obtain u where u: "gate_entry classical (Call_CNOT 0 5) [1] ?sim = (Inl (UsageError u), ?sim)"
    by auto
  have "fst (gate_entry classical (Call_CNOT 0 5) [1] ?sim) = Inl (UsageError (Does_not_exist 5))"
    by (simp add: gate_CNOT_def gate_operation_def check_qubit_reg_exists_def)
  with u have first: "gate_entry classical (Call_CNOT 0 5) [1] ?sim
      = (Inl (UsageError (Does_not_exist 5)), ?sim)"
    by simp
  from gate_entry_usage_errors [where gc = "Call_X 0" and sim = ?sim and be = classical
      and controls = "[]" and pre = "[2]" and ?c0.0 = 0 and post = "[1]"]
  obtain u' where u': "gate_entry classical (Call_X 0) [2, 0, 1] ?sim = (Inl (UsageError u'), ?sim)"
    by auto
  have "fst (gate_entry classical (Call_X 0) [2, 0, 1] ?sim) = Inl (UsageError (Must_be_Bit 0))"
    by (simp add: gate_X_def gate_operation_def check_qubit_reg_exists_def
        check_bit_reg_exists_def get_bit_def)
  with u' have "gate_entry classical (Call_X 0) [2, 0, 1] ?sim
      = (Inl (UsageError (Must_be_Bit 0)), ?sim)"
    by simp
  with first show ?thesis by simp
qed

text \<open>
  Claim C6 as stated fails: the control \<open>7\<close> does not exist, yet the call returns
  normally, because the control \<open>1\<close> before it holds \<open>False\<close> and ends the loop.
\<close>

theorem missing_control_behind_false_control:
  "map_of [(0 :: register, QubitRegister 0), (1, BitRegister False)] 7 = None
   \<and> gate_X classical 0 [1, 7]
       \<lparr>num_qubits = 1, ctxt = [(0, QubitRegister 0), (1, BitRegister False)], state = Some [False]\<rparr>
     = (Inr (),
       \<lparr>num_qubits = 1, ctxt = [(0, QubitRegister 0), (1, BitRegister False)], state = Some [False]\<rparr>)"
  by (simp add: gate_X_def gate_operation_def check_qubit_reg_exists_def check_bit_reg_exists_def
      get_bit_def)

section \<open>Errors and what they leave behind\<close>

lemma new_qubit_error:
  assumes "new_qubit be reg bvalue sim = (Inl e, sim')"
  shows "(e = UsageError (Already_exists reg) \<and> sim' = sim)
       \<or> (e = BackendError \<and> sim' = sim\<lparr>num_qubits := num_qubits sim + 1\<rparr>)"
  using assms by (auto simp: new_qubit_def Let_def split: if_splits option.splits)

lemma measure_reg_error:
  assumes "measure_reg be reg sim = (Inl e, sim')"
  shows "measure_failure be reg sim e sim'"
proof (cases "map_of (ctxt sim) reg")
  case None
  with assms show ?thesis
    by (simp add: measure_reg_def check_qubit_reg_exists_def)
next
  case (Some x)
  show ?thesis
  proof (cases x)
    case (BitRegister b)
    with Some assms show ?thesis
      by (simp add: measure_reg_def check_qubit_reg_exists_def)
  next
    case (QubitRegister q)
    show ?thesis
    proof (cases "run_measure be (num_qubits sim) (state sim) q")
      case no: None
      with Some QubitRegister assms show ?thesis
        by (simp add: measure_reg_def check_qubit_reg_exists_def get_qubit_def)
    next
      case yes: (Some r)
      obtain b sv where r: "r = (b, sv)" by (cases r)
      show ?thesis
      proof (cases "0 < num_qubits sim - 1")
        case True
        with Some QubitRegister yes r assms show ?thesis
          by (cases "partial_trace be sv q")
            (simp_all add: measure_reg_def check_qubit_reg_exists_def get_qubit_def
              Let_def)
      next
        case False
        with Some QubitRegister yes r assms show ?thesis
          by (simp add: measure_reg_def check_qubit_reg_exists_def get_qubit_def Let_def)
      qed
    qed
  qed
qed

lemma read_error:
  assumes "read be reg sim = (Inl e, sim')"
  shows "measure_failure be reg sim e sim' \<and> e \<noteq> UsageError (Must_be_Qubit reg)"
proof (cases "map_of (ctxt sim) reg")
  case None
  with assms show ?thesis by (auto simp: read_def)
next
  case (Some x)
  show ?thesis
  proof (cases x)
    case (BitRegister b)
    with Some assms show ?thesis by (simp add: read_def get_bit_def)
  next
    case (QubitRegister q)
    obtain r s1 where m: "measure_reg be reg sim = (r, s1)"
      by (cases "measure_reg be reg sim")
    show ?thesis
    proof (cases r)
      case (Inl err)
      with Some QubitRegister m assms have "measure_reg be reg sim = (Inl e, sim')"
        by (simp add: read_def)
      then have "measure_failure be reg sim e sim'" by (rule measure_reg_error)
      with Some QubitRegister show ?thesis by auto
    next
      case (Inr u)
      with m obtain b where "map_of (ctxt s1) reg = Some (BitRegister b)"
        using measure_reg_leaves_bit by blast
      with Some QubitRegister m Inr assms show ?thesis
        by (simp add: read_def get_bit_def)
    qed
  qed
qed

lemma discard_error:
  assumes "discard be reg sim = (Inl e, sim')"
  shows "measure_failure be reg sim e sim' \<and> e \<noteq> UsageError (Must_be_Qubit reg)"
proof (cases "map_of (ctxt sim) reg")
  case None
  with assms show ?thesis by (auto simp: discard_def)
next
  case (Some x)
  show ?thesis
  proof (cases x)
    case (BitRegister b)
    with Some assms show ?thesis by (simp add: discard_def)
  next
    case (QubitRegister q)
    obtain r s1 where m: "measure_reg be reg sim = (r, s1)"
      by (cases "measure_reg be reg sim")
    show ?thesis
    proof (cases r)
      case (Inl err)
      with Some QubitRegister m assms have "measure_reg be reg sim = (Inl e, sim')"
        by (simp add: discard_def)
      then have "measure_failure be reg sim e sim'" by (rule measure_reg_error)
      with Some QubitRegister show ?thesis by auto
    next
      case (Inr u)
      with Some QubitRegister m assms show ?thesis by (simp add: discard_def)
    qed
  qed
qed

lemma measure_failure_usage:
  "measure_failure be reg sim e sim' \<Longrightarrow> is_UsageError e \<Longrightarrow> sim' = sim"
  by (auto split: option.splits entry.splits)

lemma measure_failure_kind:
  "measure_failure be reg sim e sim' \<Longrightarrow> is_UsageError e \<or> e = BackendError"
  by (auto split: option.splits entry.splits)

lemma new_qubit_from_bit_error:
  assumes "new_qubit_from_bit reg sim = (Inl e, sim')"
  shows "(is_UsageError e \<and> sim' = sim) \<or> e = NameError"
  using assms
  by (auto simp: new_qubit_from_bit_def check_bit_reg_exists_def Let_def
      split: option.splits if_splits)

lemma get_qubits_checked: "check_regs c regs = None \<Longrightarrow> \<exists>qs. get_qubits c regs = Inr qs"
  using qubits_exist [of regs c] get_qubits_all2 [of c regs] by (auto simp: check_regs_None)

lemma check_controls_error: "check_controls c controls = Inl e \<Longrightarrow> is_UsageError e"
  by (induction controls)
    (auto simp: check_bit_reg_exists_def get_bit_def is_BitRegister_def
      split: option.splits if_splits entry.splits)

lemma check_regs_error: "check_regs c regs = Some e \<Longrightarrow> is_UsageError e"
  by (induction regs) (auto simp: check_qubit_reg_exists_def split: option.splits if_splits)

lemma gate_operation_error:
  assumes "gate_operation be g regs controls sim = (Inl e, sim')"
  shows "sim' = sim" and "is_UsageError e \<or> e = BackendError"
proof -
  show "sim' = sim"
    using assms by (auto simp: gate_operation_def split: option.splits sum.splits bool.splits)
  show "is_UsageError e \<or> e = BackendError"
  proof (cases "check_regs (ctxt sim) regs")
    case (Some e')
    with assms check_regs_error [OF Some] show ?thesis by (simp add: gate_operation_def)
  next
    case None
    then obtain qs where qs: "get_qubits (ctxt sim) regs = Inr qs"
      using get_qubits_checked by blast
    show ?thesis
    proof (cases "check_controls (ctxt sim) controls")
      case (Inl e')
      with None assms check_controls_error [OF Inl] show ?thesis
        by (simp add: gate_operation_def)
    next
      case (Inr go)
      with None qs assms show ?thesis
        by (cases go; cases "run_gate be (num_qubits sim) (state sim) g qs")
          (simp_all add: gate_operation_def)
    qed
  qed
qed

text \<open>
  Claim C4, as the code has it. A public operation raises \<open>UsageError\<close>, an
  exception of the engine, or (in \<open>new_qubit_from_bit\<close> only) \<open>NameError\<close>; the
  lookups \<open>self.context[reg]\<close>, \<open>.qubit\<close> and \<open>.bit\<close> never raise. After
  \<open>UsageError\<close> the simulator (context, \<open>num_qubits\<close>, state) is exactly as it was
  before the call. A gate entry point leaves it as it was whatever it raises. When
  the engine raises inside \<open>new_qubit\<close>, the context and the state are as before and
  \<open>num_qubits\<close> is already one higher. When the engine raises inside \<open>measure\<close>,
  \<open>read\<close> or \<open>discard\<close>, the register held a qubit, and either the measurement
  circuit raised and the simulator is exactly as it was, or the circuit gave an
  outcome, a qubit remains, the partial trace raised, and the entry of the register
  is already the outcome bit and \<open>num_qubits\<close> is already one lower, the state and
  all other entries being as before.
\<close>

theorem errors_and_mutation:
  "exec be cmd sim = (Inl e, sim') \<Longrightarrow>
     e \<noteq> KeyError \<and> e \<noteq> AttributeError
     \<and> (e = NameError \<longrightarrow> (\<exists>reg. cmd = New_qubit_from_bit reg))
     \<and> (is_UsageError e \<longrightarrow> sim' = sim)
     \<and> ((\<exists>gc controls. cmd = Gate gc controls) \<longrightarrow> sim' = sim)
     \<and> ((\<exists>reg bvalue. cmd = New_qubit reg bvalue) \<and> e = BackendError
          \<longrightarrow> sim' = sim\<lparr>num_qubits := num_qubits sim + 1\<rparr>)
     \<and> (\<forall>reg. (cmd = Measure reg \<or> cmd = Read reg \<or> cmd = Discard reg) \<and> e = BackendError
          \<longrightarrow> (\<exists>q. map_of (ctxt sim) reg = Some (QubitRegister q) \<and>
                 (case run_measure be (num_qubits sim) (state sim) q of
                    None \<Rightarrow> sim' = sim
                  | Some (b, sv) \<Rightarrow>
                      0 < num_qubits sim - 1 \<and> partial_trace be sv q = None \<and>
                      sim' = sim\<lparr>ctxt := AList.update reg (BitRegister b) (ctxt sim),
                                 num_qubits := num_qubits sim - 1\<rparr>)))"
proof -
  assume ex: "exec be cmd sim = (Inl e, sim')"
  have measuring: ?thesis
    if c: "cmd = Measure reg \<or> cmd = Read reg \<or> cmd = Discard reg"
      and f: "measure_failure be reg sim e sim'" for reg
  proof -
    from f have kind: "is_UsageError e \<or> e = BackendError" by (rule measure_failure_kind)
    from f have usage: "is_UsageError e \<longrightarrow> sim' = sim" by (auto dest: measure_failure_usage)
    from f have "e = BackendError \<longrightarrow>
        (\<exists>q. map_of (ctxt sim) reg = Some (QubitRegister q) \<and>
           (case run_measure be (num_qubits sim) (state sim) q of
              None \<Rightarrow> sim' = sim
            | Some (b, sv) \<Rightarrow>
                0 < num_qubits sim - 1 \<and> partial_trace be sv q = None \<and>
                sim' = sim\<lparr>ctxt := AList.update reg (BitRegister b) (ctxt sim),
                           num_qubits := num_qubits sim - 1\<rparr>))"
      by (auto split: option.splits entry.splits)
    with kind usage c show ?thesis by auto
  qed
  show ?thesis
  proof (cases cmd)
    case Reset
    with ex show ?thesis by (simp add: returning_def reset_def)
  next
    case Fresh
    with ex show ?thesis by (simp add: returning_def fresh_def)
  next
    case (New_qubit reg bvalue)
    with ex have "new_qubit be reg bvalue sim = (Inl e, sim')"
      by (auto simp: returning_def split: prod.splits sum.splits)
    from new_qubit_error [OF this] New_qubit show ?thesis by auto
  next
    case (New_qubit_from_bit reg)
    with ex have "new_qubit_from_bit reg sim = (Inl e, sim')"
      by (auto simp: returning_def split: prod.splits sum.splits)
    from new_qubit_from_bit_error [OF this] New_qubit_from_bit show ?thesis by auto
  next
    case (Measure reg)
    with ex have "measure_reg be reg sim = (Inl e, sim')"
      by (auto simp: returning_def split: prod.splits sum.splits)
    then have "measure_failure be reg sim e sim'" by (rule measure_reg_error)
    with Measure show ?thesis by (intro measuring [of reg]) simp_all
  next
    case (Read reg)
    with ex have "read be reg sim = (Inl e, sim')"
      by (auto simp: returning_def split: prod.splits sum.splits)
    then have "measure_failure be reg sim e sim'" using read_error by blast
    with Read show ?thesis by (intro measuring [of reg]) simp_all
  next
    case (Discard reg)
    with ex have "discard be reg sim = (Inl e, sim')"
      by (auto simp: returning_def split: prod.splits sum.splits)
    then have "measure_failure be reg sim e sim'" using discard_error by blast
    with Discard show ?thesis by (intro measuring [of reg]) simp_all
  next
    case (Gate gc controls)
    with ex have "gate_operation be (descriptor gc) (targets gc) controls sim = (Inl e, sim')"
      by (auto simp: returning_def gate_entry_eq split: prod.splits sum.splits)
    from gate_operation_error [OF this] Gate show ?thesis by auto
  qed
qed

theorem errors_and_mutation_witness:
  "exec classical (Measure 1)
     \<lparr>num_qubits = 1, ctxt = [(0, QubitRegister 0), (1, BitRegister False)], state = Some [False]\<rparr>
   = (Inl (UsageError (Must_be_Qubit 1)),
     \<lparr>num_qubits = 1, ctxt = [(0, QubitRegister 0), (1, BitRegister False)], state = Some [False]\<rparr>)
   \<and> exec failing (Read 0) \<lparr>num_qubits = 1, ctxt = [(0, QubitRegister 0)], state = Some ()\<rparr>
   = (Inl BackendError, \<lparr>num_qubits = 1, ctxt = [(0, QubitRegister 0)], state = Some ()\<rparr>)"
proof -
  let ?sim = "\<lparr>num_qubits = 1, ctxt = [(0, QubitRegister 0), (1, BitRegister False)],
    state = Some [False]\<rparr>"
  let ?sim' = "snd (exec classical (Measure 1) ?sim)"
  have e: "exec classical (Measure 1) ?sim = (Inl (UsageError (Must_be_Qubit 1)), ?sim')"
    by (simp add: returning_def measure_reg_def check_qubit_reg_exists_def)
  from errors_and_mutation [OF e] have "?sim' = ?sim"
    by simp
  with e have first: "exec classical (Measure 1) ?sim = (Inl (UsageError (Must_be_Qubit 1)), ?sim)"
    by simp
  let ?s = "\<lparr>num_qubits = 1, ctxt = [(0, QubitRegister 0)], state = Some ()\<rparr>"
  let ?s' = "snd (exec failing (Read 0) ?s)"
  have f: "exec failing (Read 0) ?s = (Inl BackendError, ?s')"
    by (simp add: returning_def read_def measure_reg_def check_qubit_reg_exists_def
        get_qubit_def failing_def)
  from errors_and_mutation [OF f] have "?s' = ?s"
    by (simp add: failing_def)
  with f have "exec failing (Read 0) ?s = (Inl BackendError, ?s)"
    by simp
  with first show ?thesis by simp
qed

text \<open>
  Claim C4 as stated fails twice. The engine raises in the circuit of \<open>new_qubit\<close>:
  the call raises, and \<open>num_qubits\<close> has gone from 1 to 2 while the context still
  holds one qubit. The partial trace raises in \<open>measure\<close>: the call raises, and the
  context already holds the outcome bit for register \<open>0\<close> and \<open>num_qubits\<close> has
  gone from 2 to 1, while the state still has two qubits and register \<open>1\<close> still
  has index 1.
\<close>

theorem engine_failures_leave_partial_updates:
  "new_qubit failing 1 False
     \<lparr>num_qubits = 1, ctxt = [(0, QubitRegister 0)], state = Some ()\<rparr>
   = (Inl BackendError, \<lparr>num_qubits = 2, ctxt = [(0, QubitRegister 0)], state = Some ()\<rparr>)
   \<and> measure_reg failing_trace 0
     \<lparr>num_qubits = 2, ctxt = [(0, QubitRegister 0), (1, QubitRegister 1)],
        state = Some [True, False]\<rparr>
   = (Inl BackendError,
     \<lparr>num_qubits = 1, ctxt = [(0, BitRegister True), (1, QubitRegister 1)],
        state = Some [True, False]\<rparr>)"
  by (simp add: new_qubit_def failing_def measure_reg_def check_qubit_reg_exists_def
      get_qubit_def failing_trace_def classical_def)

section \<open>Round trip of \<open>new_qubit\<close> and \<open>read\<close>\<close>






















end
